theory Spec2Isabelle
  imports Main "HOL-Library.Word" "HOL-Library.Sublist" "HOL-Library.Multiset"
begin

text \<open>
  The certificate-transparency monitor of cert-monitor-lambda: the rule engine
  \<^verbatim>\<open>nameMatches\<close>, the per-log synchronisation \<^verbatim>\<open>processLog\<close> and the run
  \<^verbatim>\<open>Handler\<close>, with the log transport, the decoder, the object store, the clock and
  the regular-expression compiler as parameters of the model. A task or a run returns,
  besides its result, the calls it made to them.
\<close>

section \<open>Data model\<close>

text \<open>
  Go's \<^verbatim>\<open>uint64\<close> and \<^verbatim>\<open>int64\<close> are both 64-bit words; the conversion
  \<^verbatim>\<open>int64(x)\<close> keeps the bits and only changes the reading (\<open>unat\<close> against \<open>sint\<close>).
  Strings are byte lists. A \<^verbatim>\<open>time.Time\<close> is an abstract instant.
\<close>

type_synonym uint64 = "64 word"
type_synonym int64 = "64 word"
type_synonym time = nat

text \<open>\<^verbatim>\<open>type Config struct\<close> of config.go.\<close>

record Config =
  Domains :: "string list"
  Patterns :: "string list"
  IncludePreCerts :: bool

text \<open>
  A compiled \<^verbatim>\<open>*regexp.Regexp\<close>: the pattern text it prints as (\<^verbatim>\<open>%s\<close>) and its
  \<^verbatim>\<open>Match\<close> method. The regular-expression engine itself is a library, so the
  matcher is carried as a function.
\<close>

record Regexp =
  pattern_String :: string
  pattern_Match :: "string \<Rightarrow> bool"

text \<open>\<^verbatim>\<open>type server struct\<close>; the S3 client handle is part of the world below.\<close>

record server =
  bucket :: string
  conf :: Config
  patterns :: "Regexp list"

text \<open>Of an \<^verbatim>\<open>x509.Certificate\<close> the program reads only \<^verbatim>\<open>DNSNames\<close>.\<close>

record Certificate =
  DNSNames :: "string list"

section \<open>Rule engine: \<^verbatim>\<open>nameMatches\<close>\<close>

text \<open>\<^verbatim>\<open>strings.HasSuffix(s, suffix)\<close>.\<close>

definition HasSuffix :: "string \<Rightarrow> string \<Rightarrow> bool" where
  "HasSuffix s suf = suffix suf s"

text \<open>
  The test made on one name and one domain rule (the two nested \<^verbatim>\<open>if\<close>s of the
  inner loop over \<^verbatim>\<open>s.conf.Domains\<close>).
\<close>

definition domainHit :: "string \<Rightarrow> string \<Rightarrow> bool" where
  "domainHit name lookingFor =
     (HasSuffix name lookingFor \<and>
      (name = lookingFor \<or> HasSuffix name (''.'' @ lookingFor)))"

text \<open>The loop over \<^verbatim>\<open>s.conf.Domains\<close> for one name: the first rule that hits.\<close>

fun firstDomain :: "string \<Rightarrow> string list \<Rightarrow> string option" where
  "firstDomain name [] = None"
| "firstDomain name (lookingFor # rest) =
     (if domainHit name lookingFor then Some lookingFor else firstDomain name rest)"

text \<open>The loop over \<^verbatim>\<open>s.patterns\<close> for one name: the first pattern that matches.\<close>

fun firstPattern :: "string \<Rightarrow> Regexp list \<Rightarrow> Regexp option" where
  "firstPattern name [] = None"
| "firstPattern name (pattern # rest) =
     (if pattern_Match pattern name then Some pattern else firstPattern name rest)"

text \<open>The outer loop over \<^verbatim>\<open>c.DNSNames\<close>, returning at the first hit.\<close>

fun matchNames :: "server \<Rightarrow> string list \<Rightarrow> bool \<times> string \<times> string" where
  "matchNames s [] = (False, '''', '''')"
| "matchNames s (name # rest) =
     (case firstDomain name (Domains (conf s)) of
        Some lookingFor \<Rightarrow> (True, name, ''domain-'' @ lookingFor)
      | None \<Rightarrow>
          (case firstPattern name (patterns s) of
             Some pattern \<Rightarrow> (True, name, ''pattern-'' @ pattern_String pattern)
           | None \<Rightarrow> matchNames s rest))"

definition nameMatches :: "server \<Rightarrow> Certificate \<Rightarrow> bool \<times> string \<times> string" where
  "nameMatches s c = matchNames s (DNSNames c)"

section \<open>Per-log synchronisation: \<^verbatim>\<open>processLog\<close>\<close>

text \<open>\<^verbatim>\<open>type LogState struct\<close>, the persisted watermark of one log.\<close>

record LogState =
  URL :: string
  Operator :: string
  Description :: string
  LastFetched :: uint64
  LastFetchedTime :: time

text \<open>
  Errors are values. \<open>ExternalErr\<close> is an error handed back by a library or a remote
  service; the other constructors are the errors the program itself builds with
  \<^verbatim>\<open>errors.New\<close> and \<^verbatim>\<open>fmt.Errorf\<close>. \<open>NilMapPanic\<close> is Go's run-time panic on an
  assignment to an entry of a nil map.
\<close>

datatype error =
    ExternalErr string
  | EnvVarNotSet
  | LoadConfigErr error
  | FetchLogListErr error
  | RegexCompileErr string error
  | S3PutObjectErr error
  | MarshalStatesErr error
  | PutStateFileErr error
  | NilMapPanic

text \<open>A raw \<^verbatim>\<open>ct.LeafEntry\<close> is an opaque payload.\<close>

type_synonym LeafEntry = string

text \<open>
  Of a decoded \<^verbatim>\<open>ct.LogEntry\<close> the program reads \<^verbatim>\<open>X509Cert\<close> and
  \<^verbatim>\<open>Precert.TBSCertificate\<close>; a nil pointer is \<open>None\<close>.
\<close>

record LogEntry =
  X509Cert :: "Certificate option"
  Precert :: "Certificate option"

text \<open>
  What \<^verbatim>\<open>ct.LogEntryFromLeaf\<close> hands back: an entry and no error, an entry together
  with a non-fatal parse error, or no entry and a fatal error. \<open>IsFatal\<close> is
  \<^verbatim>\<open>x509.IsFatal\<close> applied to the error of the pair.
\<close>

datatype parse_result = ParseOk LogEntry | ParseNonFatal LogEntry | ParseFatal

fun IsFatal :: "parse_result \<Rightarrow> bool" where
  "IsFatal ParseFatal = True"
| "IsFatal (ParseOk logEntry) = False"
| "IsFatal (ParseNonFatal logEntry) = False"

text \<open>
  The answers of one remote log during one run: \<^verbatim>\<open>lc.GetSTH\<close> (of which only
  \<^verbatim>\<open>TreeSize\<close> is read) and \<^verbatim>\<open>lc.GetRawEntries(ctx, start, end)\<close> (of which only
  \<^verbatim>\<open>Entries\<close> is read).
\<close>

record LogClient =
  GetSTH :: "error + uint64"
  GetRawEntries :: "int64 \<Rightarrow> int64 \<Rightarrow> error + LeafEntry list"

text \<open>
  Everything outside the program that a sync task talks to. \<open>timeStr i\<close> and
  \<open>randStr i\<close> are the formatted clock reading and the encoded random bytes drawn in
  the \<open>i\<close>-th iteration of the entry loop; \<open>timeNow\<close> is the clock reading stored in
  the watermark.
\<close>

record world =
  clientNew :: "string \<Rightarrow> error + LogClient"
  LogEntryFromLeaf :: "int64 \<Rightarrow> LeafEntry \<Rightarrow> parse_result"
  jsonMarshal :: "LeafEntry \<Rightarrow> error + string"
  PutObject :: "string \<Rightarrow> string \<Rightarrow> error option"
  timeNow :: time
  timeStr :: "nat \<Rightarrow> string"
  randStr :: "nat \<Rightarrow> string"

text \<open>The calls a task makes, in the order it makes them.\<close>

datatype event =
    CallGetSTH string
  | CallGetRawEntries string int64 int64
  | CallLogEntryFromLeaf int64 LeafEntry
  | CallPutObject string string

text \<open>The choice of \<^verbatim>\<open>certType\<close> and \<^verbatim>\<open>cert\<close> for a decoded entry.\<close>

definition selectCert :: "server \<Rightarrow> LogEntry \<Rightarrow> string \<times> Certificate option" where
  "selectCert s logEntry =
     (if IncludePreCerts (conf s) \<and> Precert logEntry \<noteq> None
      then (''precert'', Precert logEntry)
      else (''cert'', X509Cert logEntry))"

text \<open>\<^verbatim>\<open>fmt.Sprintf("certs/%s-%s-%s.json", ...)\<close>.\<close>

definition artifactKey :: "world \<Rightarrow> nat \<Rightarrow> string \<Rightarrow> string" where
  "artifactKey w i name =
     ''certs/'' @ timeStr w i @ ''-'' @ randStr w i @ ''-'' @ name @ ''.json''"

text \<open>
  The part of the loop body after a certificate was selected: match it and, on a match,
  store the raw entry. The first component is the error the task returns with, if any.
\<close>

definition storeMatch :: "world \<Rightarrow> server \<Rightarrow> nat \<Rightarrow> LeafEntry \<Rightarrow> Certificate \<Rightarrow>
    error option \<times> event list" where
  "storeMatch w s i entry cert =
     (case nameMatches s cert of
        (True, name, matchStr) \<Rightarrow>
          (let key = artifactKey w i name in
           case jsonMarshal w entry of
             Inl err \<Rightarrow> (Some err, [])
           | Inr jsonTxt \<Rightarrow>
               (case PutObject w key jsonTxt of
                  Some err \<Rightarrow> (Some (S3PutObjectErr err), [CallPutObject key jsonTxt])
                | None \<Rightarrow> (None, [CallPutObject key jsonTxt])))
      | (False, name, matchStr) \<Rightarrow> (None, []))"

text \<open>The loop body from the nil test on \<^verbatim>\<open>cert\<close> on, for a decoded entry.\<close>

definition matchEntry :: "world \<Rightarrow> server \<Rightarrow> nat \<Rightarrow> LeafEntry \<Rightarrow> LogEntry \<Rightarrow>
    error option \<times> event list" where
  "matchEntry w s i entry logEntry =
     (case snd (selectCert s logEntry) of
        None \<Rightarrow> (None, [])
      | Some cert \<Rightarrow> storeMatch w s i entry cert)"

text \<open>One iteration of the loop over \<^verbatim>\<open>rawEntries.Entries\<close>.\<close>

definition processEntry :: "world \<Rightarrow> server \<Rightarrow> int64 \<Rightarrow> nat \<Rightarrow> LeafEntry \<Rightarrow>
    error option \<times> event list" where
  "processEntry w s start i entry =
     (let index = start + of_nat i;
          r = LogEntryFromLeaf w index entry;
          (err, evs) =
            (if IsFatal r then (None, [])
             else case r of
                    ParseOk logEntry \<Rightarrow> matchEntry w s i entry logEntry
                  | ParseNonFatal logEntry \<Rightarrow> matchEntry w s i entry logEntry
                  | ParseFatal \<Rightarrow> (None, []))
      in (err, CallLogEntryFromLeaf index entry # evs))"

text \<open>
  The loop, from position \<open>i\<close>: the error it returns with (if any), the calls made and
  the number of times \<^verbatim>\<open>entriesSeen++\<close> ran.
\<close>

fun processEntries :: "world \<Rightarrow> server \<Rightarrow> int64 \<Rightarrow> nat \<Rightarrow> LeafEntry list \<Rightarrow>
    error option \<times> event list \<times> nat" where
  "processEntries w s start i [] = (None, [], 0)"
| "processEntries w s start i (entry # rest) =
     (case processEntry w s start i entry of
        (Some err, evs) \<Rightarrow> (Some err, evs, 1)
      | (None, evs) \<Rightarrow>
          (case processEntries w s start (Suc i) rest of
             (r, evs', n) \<Rightarrow> (r, evs @ evs', Suc n)))"

text \<open>
  What a task leaves behind: the pair it returns (\<open>Inl\<close> the error, \<open>Inr\<close> the state),
  the calls it made, and the final \<^verbatim>\<open>entriesSeen\<close>.

  \<^verbatim>\<open>processLog\<close> is handed a pointer, writes the two watermark fields through it just
  before it returns the pointer, and writes nothing on the paths that return an error
  or the unchanged state. The model takes the state as a value and returns the new
  value; tasks are started on the states of different logs.
\<close>

record task_result =
  ret :: "error + LogState"
  events :: "event list"
  entriesSeen :: nat

definition processLog :: "world \<Rightarrow> server \<Rightarrow> LogState \<Rightarrow> task_result" where
  "processLog w s state =
     (case clientNew w (URL state) of
        Inl err \<Rightarrow> \<lparr>ret = Inl err, events = [], entriesSeen = 0\<rparr>
      | Inr lc \<Rightarrow>
          (case GetSTH lc of
             Inl err \<Rightarrow>
               \<lparr>ret = Inr state, events = [CallGetSTH (URL state)], entriesSeen = 0\<rparr>
           | Inr TreeSize \<Rightarrow>
               if LastFetched state = 0 then
                 \<lparr>ret = Inr (state\<lparr>LastFetched := TreeSize, LastFetchedTime := timeNow w\<rparr>),
                  events = [CallGetSTH (URL state)], entriesSeen = 0\<rparr>
               else if TreeSize = LastFetched state then
                 \<lparr>ret = Inr state, events = [CallGetSTH (URL state)], entriesSeen = 0\<rparr>
               else
                 (let start = LastFetched state + 1;
                      calls = [CallGetSTH (URL state),
                               CallGetRawEntries (URL state) start TreeSize]
                  in case GetRawEntries lc start TreeSize of
                       Inl err \<Rightarrow> \<lparr>ret = Inr state, events = calls, entriesSeen = 0\<rparr>
                     | Inr rawEntries \<Rightarrow>
                         (case processEntries w s start 0 rawEntries of
                            (Some err, evs, n) \<Rightarrow>
                              \<lparr>ret = Inl err, events = calls @ evs, entriesSeen = n\<rparr>
                          | (None, evs, n) \<Rightarrow>
                              \<lparr>ret = Inr (state\<lparr>LastFetched := TreeSize,
                                                LastFetchedTime := timeNow w\<rparr>),
                               events = calls @ evs, entriesSeen = n\<rparr>))))"

section \<open>The run: \<^verbatim>\<open>Handler\<close>\<close>

text \<open>
  \<^verbatim>\<open>type LogStates map[string]*LogState\<close>. A Go map variable may be nil (\<open>None\<close>
  here): reading a nil map finds nothing, assigning to it panics. A key bound to a nil
  pointer reads like an absent key.
\<close>

type_synonym LogStates = "(string \<rightharpoonup> LogState) option"

definition lookupState :: "LogStates \<Rightarrow> string \<Rightarrow> LogState option" where
  "lookupState states url = (case states of None \<Rightarrow> None | Some m \<Rightarrow> m url)"

text \<open>The catalog (\<^verbatim>\<open>loglist3.LogList\<close>): operators, their logs, each log's status.\<close>

datatype LogStatus =
    UndefinedLogStatus | PendingLogStatus | QualifiedLogStatus | UsableLogStatus
  | ReadOnlyLogStatus | RetiredLogStatus | RejectedLogStatus

record Log =
  log_URL :: string
  log_Description :: string
  log_Status :: LogStatus

record LogOperator =
  op_Name :: string
  op_Logs :: "Log list"

type_synonym LogList = "LogOperator list"

definition logStateKey :: string where
  "logStateKey = ''log-state.json''"

text \<open>
  The surroundings of one run. \<open>arrivalOrder\<close> is the order in which the results of
  the concurrently running tasks reach the collecting loop, as a rearrangement of the
  results in launch order. \<open>configErrFirst\<close> says which of two load errors is received
  first when both the configuration and the catalog fail.
\<close>

record env =
  getenvBucket :: string
  loadDefaultConfig :: "error option"
  loadConfig :: "error + Config"
  fetchLogState :: "error + LogStates"
  fetchLogList :: "error + LogList"
  configErrFirst :: bool
  regexpCompile :: "string \<Rightarrow> error + Regexp"
  theWorld :: world
  arrivalOrder :: "(error + LogState) list \<Rightarrow> (error + LogState) list"
  marshalStates :: "LogStates \<Rightarrow> error + string"

text \<open>
  The three loader goroutines and the receive loop that joins them. A failed state load
  is replaced by a fresh empty map inside its goroutine; a failed configuration or
  catalog load sends its error, which the loop returns.
\<close>

definition loadAll :: "env \<Rightarrow> error + (Config \<times> LogStates \<times> LogList)" where
  "loadAll e =
     (let states = (case fetchLogState e of
                      Inl err \<Rightarrow> Some Map.empty
                    | Inr states \<Rightarrow> states)
      in case (loadConfig e, fetchLogList e) of
           (Inl cerr, Inl lerr) \<Rightarrow>
             Inl (if configErrFirst e then LoadConfigErr cerr else FetchLogListErr lerr)
         | (Inl cerr, Inr logList) \<Rightarrow> Inl (LoadConfigErr cerr)
         | (Inr c, Inl lerr) \<Rightarrow> Inl (FetchLogListErr lerr)
         | (Inr c, Inr logList) \<Rightarrow> Inr (c, states, logList))"

text \<open>The loop compiling \<^verbatim>\<open>s.conf.Patterns\<close>, returning at the first failure.\<close>

fun compilePatterns :: "(string \<Rightarrow> error + Regexp) \<Rightarrow> string list \<Rightarrow> error + Regexp list" where
  "compilePatterns compile [] = Inr []"
| "compilePatterns compile (patternStr # rest) =
     (case compile patternStr of
        Inl err \<Rightarrow> Inl (RegexCompileErr patternStr err)
      | Inr r \<Rightarrow>
          (case compilePatterns compile rest of
             Inl err \<Rightarrow> Inl err
           | Inr rs \<Rightarrow> Inr (r # rs)))"

text \<open>The state a task is started with: the stored one, or a fresh one for the log.\<close>

definition taskState :: "LogStates \<Rightarrow> LogOperator \<Rightarrow> Log \<Rightarrow> LogState" where
  "taskState states operator log =
     (case lookupState states (log_URL log) of
        Some state \<Rightarrow> state
      | None \<Rightarrow> \<lparr>URL = log_URL log, Operator = op_Name operator,
                  Description = log_Description log,
                  LastFetched = 0, LastFetchedTime = 0\<rparr>)"

text \<open>The nested loops over operators and logs: one task per usable log.\<close>

definition launched :: "LogStates \<Rightarrow> LogList \<Rightarrow> LogState list" where
  "launched states logList =
     concat (map (\<lambda>operator.
                    map (taskState states operator)
                        (filter (\<lambda>log. log_Status log = UsableLogStatus) (op_Logs operator)))
                 logList)"

text \<open>
  The collecting loop: it takes the results as they arrive, stores every state under
  its URL and returns at the first error.

  The Go map holds pointers, and a task writes through the pointer it was handed. The
  map of values below agrees with it whenever every loaded entry is stored under the
  key that its own \<^verbatim>\<open>url\<close> field names: the state a task returns is then stored back
  under the key it was read from. A loaded entry whose key differs from its
  \<^verbatim>\<open>url\<close> field is outside the model; the statements about watermark files below
  assume files without such entries.
\<close>

fun collect :: "(error + LogState) list \<Rightarrow> LogStates \<Rightarrow> error + LogStates" where
  "collect [] states = Inr states"
| "collect (Inl err # rest) states = Inl err"
| "collect (Inr state # rest) states =
     (case states of
        None \<Rightarrow> Inl NilMapPanic
      | Some m \<Rightarrow> collect rest (Some (m(URL state \<mapsto> state))))"

text \<open>
  What a run leaves behind: the error \<^verbatim>\<open>Handler\<close> returns (\<open>None\<close> for nil), the
  tasks it launched (each with the calls that task makes when it runs to its end), and
  the calls \<^verbatim>\<open>Handler\<close> makes itself after the tasks reported.
\<close>

record run_result =
  run_err :: "error option"
  run_tasks :: "task_result list"
  run_calls :: "event list"

definition failRun :: "error \<Rightarrow> run_result" where
  "failRun err = \<lparr>run_err = Some err, run_tasks = [], run_calls = []\<rparr>"

definition persist :: "env \<Rightarrow> task_result list \<Rightarrow> LogStates \<Rightarrow> run_result" where
  "persist e tasks states =
     (case marshalStates e states of
        Inl err \<Rightarrow> \<lparr>run_err = Some (MarshalStatesErr err), run_tasks = tasks, run_calls = []\<rparr>
      | Inr statesTxt \<Rightarrow>
          \<lparr>run_err = (case PutObject (theWorld e) logStateKey statesTxt of
                        Some err \<Rightarrow> Some (PutStateFileErr err)
                      | None \<Rightarrow> None),
           run_tasks = tasks,
           run_calls = [CallPutObject logStateKey statesTxt]\<rparr>)"

definition syncAll :: "env \<Rightarrow> server \<Rightarrow> LogStates \<Rightarrow> LogList \<Rightarrow> run_result" where
  "syncAll e s states logList =
     (let tasks = map (processLog (theWorld e) s) (launched states logList)
      in case collect (arrivalOrder e (map ret tasks)) states of
           Inl err \<Rightarrow> \<lparr>run_err = Some err, run_tasks = tasks, run_calls = []\<rparr>
         | Inr states' \<Rightarrow> persist e tasks states')"

definition Handler :: "env \<Rightarrow> run_result" where
  "Handler e =
     (if getenvBucket e = '''' then failRun EnvVarNotSet
      else case loadDefaultConfig e of
             Some err \<Rightarrow> failRun err
           | None \<Rightarrow>
               (case loadAll e of
                  Inl err \<Rightarrow> failRun err
                | Inr (c, states, logList) \<Rightarrow>
                    (case compilePatterns (regexpCompile e) (Patterns c) of
                       Inl err \<Rightarrow> failRun err
                     | Inr ps \<Rightarrow>
                         syncAll e \<lparr>bucket = getenvBucket e, conf = c, patterns = ps\<rparr>
                                 states logList)))"

section \<open>Observations and sample surroundings\<close>

text \<open>The decode calls of a trace: index and raw entry, in call order.\<close>

fun decodeCalls :: "event list \<Rightarrow> (int64 \<times> LeafEntry) list" where
  "decodeCalls [] = []"
| "decodeCalls (CallLogEntryFromLeaf index entry # evs) = (index, entry) # decodeCalls evs"
| "decodeCalls (ev # evs) = decodeCalls evs"

text \<open>The range requests of a trace: the two arguments, in call order.\<close>

fun rangeCalls :: "event list \<Rightarrow> (int64 \<times> int64) list" where
  "rangeCalls [] = []"
| "rangeCalls (CallGetRawEntries url start end # evs) = (start, end) # rangeCalls evs"
| "rangeCalls (ev # evs) = rangeCalls evs"

text \<open>
  A log client that refuses a range whose end lies below its start, both read as signed
  64-bit numbers, and surroundings in which every client does so.
\<close>

definition refusesInverted :: "LogClient \<Rightarrow> bool" where
  "refusesInverted lc = (\<forall>start end. sint end < sint start \<longrightarrow> isl (GetRawEntries lc start end))"

definition orderlyWorld :: "world \<Rightarrow> bool" where
  "orderlyWorld w =
     (\<forall>url lc. clientNew w url = Inr lc \<longrightarrow>
        refusesInverted lc \<and> (\<forall>T. GetSTH lc = Inr T \<longrightarrow> T < 2 ^ 63 - 1))"

text \<open>
  The map \<^verbatim>\<open>Handler\<close> holds when the collecting loop has ended, that is the value of
  \<^verbatim>\<open>states\<close> handed to \<^verbatim>\<open>json.Marshal\<close>, or the error it returned with before.
\<close>

definition finalStates :: "env \<Rightarrow> error + LogStates" where
  "finalStates e =
     (if getenvBucket e = '''' then Inl EnvVarNotSet
      else case loadDefaultConfig e of
             Some err \<Rightarrow> Inl err
           | None \<Rightarrow>
               (case loadAll e of
                  Inl err \<Rightarrow> Inl err
                | Inr (c, states, logList) \<Rightarrow>
                    (case compilePatterns (regexpCompile e) (Patterns c) of
                       Inl err \<Rightarrow> Inl err
                     | Inr ps \<Rightarrow>
                         collect (arrivalOrder e
                                    (map ret (map (processLog (theWorld e)
                                                     \<lparr>bucket = getenvBucket e, conf = c,
                                                      patterns = ps\<rparr>)
                                                  (launched states logList))))
                                 states)))"

text \<open>
  The watermark file after a run, given the one before it: the object
  \<open>log-state.json\<close> is taken as the map whose marshalling it holds. The run replaces
  it when it gets to the final \<^verbatim>\<open>PutObject\<close> and that call succeeds, and leaves it as
  it was otherwise.
\<close>

definition storedAfter :: "env \<Rightarrow> LogStates \<Rightarrow> LogStates" where
  "storedAfter e prior =
     (case finalStates e of
        Inl err \<Rightarrow> prior
      | Inr states \<Rightarrow>
          (case marshalStates e states of
             Inl err \<Rightarrow> prior
           | Inr statesTxt \<Rightarrow>
               (case PutObject (theWorld e) logStateKey statesTxt of
                  Some err \<Rightarrow> prior
                | None \<Rightarrow> states)))"

text \<open>The successive watermark files along a sequence of runs.\<close>

fun storedRuns :: "env list \<Rightarrow> LogStates \<Rightarrow> LogStates list" where
  "storedRuns [] stored = []"
| "storedRuns (e # rest) stored =
     (let stored' = storedAfter e stored in stored' # storedRuns rest stored')"

text \<open>Every run of the sequence loads the watermark file the run before it left.\<close>

fun loadsStored :: "env list \<Rightarrow> LogStates \<Rightarrow> bool" where
  "loadsStored [] stored = True"
| "loadsStored (e # rest) stored =
     (fetchLogState e = Inr stored \<and> loadsStored rest (storedAfter e stored))"

text \<open>
  The persisted \<^verbatim>\<open>last_fetched\<close> of a log in a watermark file; a log without an entry
  has the watermark 0 of a log never synced.
\<close>

definition watermarkOf :: "LogStates \<Rightarrow> string \<Rightarrow> uint64" where
  "watermarkOf states url =
     (case lookupState states url of None \<Rightarrow> 0 | Some state \<Rightarrow> LastFetched state)"

text \<open>
  A watermark file in which every entry is stored under its own URL, as the entries
  that \<^verbatim>\<open>Handler\<close> adds are, and one in which every watermark is below \<open>2^63 - 1\<close>.
\<close>

definition wellKeyed :: "LogStates \<Rightarrow> bool" where
  "wellKeyed states =
     (\<forall>m url state. states = Some m \<longrightarrow> m url = Some state \<longrightarrow> URL state = url)"

definition boundedStates :: "LogStates \<Rightarrow> bool" where
  "boundedStates states =
     (\<forall>m url state. states = Some m \<longrightarrow> m url = Some state \<longrightarrow>
        LastFetched state < 2 ^ 63 - 1)"

text \<open>
  A run whose log clients are orderly and whose task results all reach the collecting
  loop, in some order.
\<close>

definition orderlyRun :: "env \<Rightarrow> bool" where
  "orderlyRun e =
     (orderlyWorld (theWorld e) \<and> (\<forall>rs. mset (arrivalOrder e rs) = mset rs))"

text \<open>
  Sample surroundings for concrete runs. A sample raw entry is the DNS name of its
  certificate; the entry \<open>''garbled''\<close> fails to decode fatally and
  \<open>''odd.google.com''\<close> decodes with a non-fatal error.
\<close>

definition exCert :: "string \<Rightarrow> LogEntry" where
  "exCert name = \<lparr>X509Cert = Some \<lparr>DNSNames = [name]\<rparr>, Precert = None\<rparr>"

definition exDecode :: "int64 \<Rightarrow> LeafEntry \<Rightarrow> parse_result" where
  "exDecode index entry =
     (if entry = ''garbled'' then ParseFatal
      else if entry = ''odd.google.com'' then ParseNonFatal (exCert entry)
      else ParseOk (exCert entry))"

text \<open>
  A log holding \<open>entries\<close> that answers a request for the entries \<open>start\<close> to \<open>end\<close>
  (both included) with at most \<open>maxBatch\<close> of them, and with an error when the range
  is inverted or starts outside the log.
\<close>

definition exLog :: "LeafEntry list \<Rightarrow> nat \<Rightarrow> LogClient" where
  "exLog entries maxBatch =
     \<lparr>GetSTH = Inr (of_nat (length entries)),
      GetRawEntries = (\<lambda>start end.
        if sint end < 0 \<or> sint end < sint start then Inl (ExternalErr ''bad range'')
        else if sint start < 0 \<or> length entries \<le> nat (sint start)
          then Inl (ExternalErr ''400'')
        else Inr (take (min maxBatch (nat (sint end - sint start + 1)))
                       (drop (nat (sint start)) entries)))\<rparr>"

definition exWorld :: "LogClient \<Rightarrow> world" where
  "exWorld lc =
     \<lparr>clientNew = (\<lambda>url. Inr lc), LogEntryFromLeaf = exDecode,
      jsonMarshal = (\<lambda>entry. Inr entry), PutObject = (\<lambda>key body. None),
      timeNow = 77, timeStr = (\<lambda>i. ''T''), randStr = (\<lambda>i. ''R'')\<rparr>"

definition exServer :: server where
  "exServer = \<lparr>bucket = ''bkt'',
               conf = \<lparr>Domains = [''google.com''], Patterns = [], IncludePreCerts = False\<rparr>,
               patterns = []\<rparr>"

definition exState :: "uint64 \<Rightarrow> LogState" where
  "exState n = \<lparr>URL = ''log.example'', Operator = ''op'', Description = ''a log'',
                LastFetched = n, LastFetchedTime = 0\<rparr>"

text \<open>Fifteen entries; the one at index 10 and the one at index 12 carry matching names.\<close>

definition exEntries :: "LeafEntry list" where
  "exEntries = [''a0.org'', ''a1.org'', ''a2.org'', ''a3.org'', ''a4.org'',
                ''a5.org'', ''a6.org'', ''a7.org'', ''a8.org'', ''a9.org'',
                ''www.google.com'', ''a11.org'', ''mail.google.com'', ''evilgoogle.com'',
                ''a14.org'']"

text \<open>Five entries; a fatal decode failure at index 2, a non-fatal one at index 3.\<close>

definition exFaulty :: "LeafEntry list" where
  "exFaulty = [''b0.org'', ''b1.org'', ''garbled'', ''odd.google.com'', ''b4.org'']"

text \<open>A client whose log cannot be reached.\<close>

definition exDown :: LogClient where
  "exDown = \<lparr>GetSTH = Inl (ExternalErr ''timeout''),
             GetRawEntries = (\<lambda>start end. Inl (ExternalErr ''timeout''))\<rparr>"

text \<open>Surroundings in which every write of an artifact is refused.\<close>

definition exReadOnly :: "world \<Rightarrow> world" where
  "exReadOnly w =
     w\<lparr>PutObject := (\<lambda>key body.
          if prefix ''certs/'' key then Some (ExternalErr ''AccessDenied'') else None)\<rparr>"

text \<open>
  A sample run: a catalog with one usable and one retired log, a compiler that rejects
  the pattern \<open>''(''\<close>, results arriving in the reverse of the launch order.
\<close>

definition exCatalog :: LogList where
  "exCatalog =
     [\<lparr>op_Name = ''op'',
       op_Logs = [\<lparr>log_URL = ''log.example'', log_Description = ''a log'',
                   log_Status = UsableLogStatus\<rparr>,
                  \<lparr>log_URL = ''old.example'', log_Description = ''an old log'',
                   log_Status = RetiredLogStatus\<rparr>]\<rparr>]"

definition exCompile :: "string \<Rightarrow> error + Regexp" where
  "exCompile patternStr =
     (if patternStr = ''('' then Inl (ExternalErr ''missing closing )'')
      else Inr \<lparr>pattern_String = patternStr,
                pattern_Match = (\<lambda>name. patternStr = ''^www.*'' \<and> prefix ''www'' name)\<rparr>)"

definition exMarshal :: "LogStates \<Rightarrow> error + string" where
  "exMarshal states =
     Inr (case states of
            None \<Rightarrow> ''null''
          | Some m \<Rightarrow> (if m ''log.example'' = None then ''{}'' else ''{log.example}''))"

definition exEnv :: "world \<Rightarrow> error + Config \<Rightarrow> error + LogStates \<Rightarrow> error + LogList \<Rightarrow> env" where
  "exEnv w c states logList =
     \<lparr>getenvBucket = ''bkt'', loadDefaultConfig = None, loadConfig = c,
      fetchLogState = states, fetchLogList = logList, configErrFirst = True,
      regexpCompile = exCompile, theWorld = w, arrivalOrder = rev,
      marshalStates = exMarshal\<rparr>"

text \<open>
  Two usable logs: \<open>''log.example''\<close> answers and holds a matching entry,
  \<open>''down.example''\<close> cannot be reached; no artifact can be written.
\<close>

definition exTwoLogs :: world where
  "exTwoLogs =
     (exReadOnly (exWorld (exLog exEntries 1000)))
       \<lparr>clientNew := (\<lambda>url. if url = ''down.example'' then Inr exDown
                             else Inr (exLog exEntries 1000))\<rparr>"

definition exCatalog2 :: LogList where
  "exCatalog2 =
     [\<lparr>op_Name = ''op'',
       op_Logs = [\<lparr>log_URL = ''log.example'', log_Description = ''a log'',
                   log_Status = UsableLogStatus\<rparr>,
                  \<lparr>log_URL = ''down.example'', log_Description = ''a silent log'',
                   log_Status = UsableLogStatus\<rparr>]\<rparr>]"

definition exStored :: LogStates where
  "exStored = Some [''log.example'' \<mapsto> exState 10,
                   ''down.example'' \<mapsto> (exState 7)\<lparr>URL := ''down.example''\<rparr>]"

text \<open>
  The two logs of \<open>exCatalog2\<close>, \<open>''log.example''\<close> answering and
  \<open>''down.example''\<close> out of reach, with a store that accepts every write.
\<close>

definition exOneDown :: world where
  "exOneDown =
     (exWorld (exLog exEntries 1000))
       \<lparr>clientNew := (\<lambda>url. if url = ''down.example'' then Inr exDown
                             else Inr (exLog exEntries 1000))\<rparr>"

text \<open>A watermark file holding the largest 64-bit value for \<open>''log.example''\<close>.\<close>

definition exStoredMax :: LogStates where
  "exStoredMax = Some [''log.example'' \<mapsto> exState (- 1)]"

text \<open>A watermark file holding 10 for \<open>''log.example''\<close>.\<close>

definition exStoredTen :: LogStates where
  "exStoredTen = Some [''log.example'' \<mapsto> exState 10]"

section \<open>Rule engine\<close>

lemma domainHit_iff: "domainHit n R \<longleftrightarrow> n = R \<or> HasSuffix n (''.'' @ R)"
  unfolding domainHit_def HasSuffix_def by (auto simp: suffix_def)

lemma firstDomain_None: "firstDomain n Rs = None \<longleftrightarrow> (\<forall>R \<in> set Rs. \<not> domainHit n R)"
  by (induction Rs) auto

lemma firstPattern_None: "firstPattern n ps = None \<longleftrightarrow> (\<forall>p \<in> set ps. \<not> pattern_Match p n)"
  by (induction ps) auto

text \<open>
  \<^verbatim>\<open>nameMatches\<close> reports a match exactly when some name of the certificate is hit
  by some domain rule or matched by some pattern.
\<close>

lemma nameMatches_fst:
  "fst (nameMatches s c) \<longleftrightarrow>
     (\<exists>n \<in> set (DNSNames c).
        (\<exists>R \<in> set (Domains (conf s)). n = R \<or> HasSuffix n (''.'' @ R)) \<or>
        (\<exists>p \<in> set (patterns s). pattern_Match p n))"
proof -
  have "fst (matchNames s ns) \<longleftrightarrow>
          (\<exists>n \<in> set ns. (\<exists>R \<in> set (Domains (conf s)). domainHit n R) \<or>
                          (\<exists>p \<in> set (patterns s). pattern_Match p n))" for ns
  proof (induction ns)
    case Nil
    show ?case by simp
  next
    case (Cons n ns)
    show ?case
    proof (cases "firstDomain n (Domains (conf s))")
      case (Some R)
      then have "\<exists>R \<in> set (Domains (conf s)). domainHit n R"
        using firstDomain_None [of n "Domains (conf s)"] by auto
      with Some show ?thesis by auto
    next
      case None
      note nd = None
      then have noD: "\<forall>R \<in> set (Domains (conf s)). \<not> domainHit n R"
        by (simp add: firstDomain_None)
      show ?thesis
      proof (cases "firstPattern n (patterns s)")
        case (Some p)
        then have "\<exists>p \<in> set (patterns s). pattern_Match p n"
          using firstPattern_None [of n "patterns s"] by auto
        with Some nd show ?thesis by auto
      next
        case None
        then have "\<forall>p \<in> set (patterns s). \<not> pattern_Match p n"
          by (simp add: firstPattern_None)
        with None nd noD Cons.IH show ?thesis by auto
      qed
    qed
  qed
  then show ?thesis
    by (simp add: nameMatches_def domainHit_iff)
qed


section \<open>Sync task\<close>

subsection \<open>Word facts\<close>

lemma sint_small: "(x :: 64 word) < 2 ^ 63 \<Longrightarrow> sint x = uint x"
proof -
  assume "x < 2 ^ 63"
  then have hi: "uint x < 2 ^ 63" by (simp add: word_less_alt)
  have lo: "- (2 ^ 63) \<le> uint x" by (rule order_trans [of _ 0]) simp_all
  from lo hi have "signed_take_bit 63 (uint x) = uint x"
    by (rule signed_take_bit_int_eq_self)
  then show ?thesis by (simp add: sint_uint)
qed

lemma uint_succ:
  assumes "(L :: 64 word) < 2 ^ 63 - 1"
  shows "uint (L + 1) = uint L + 1" and "L + 1 < 2 ^ 63"
proof -
  from assms have l: "uint L < 2 ^ 63 - 1" by (simp add: word_less_alt)
  then show u: "uint (L + 1) = uint L + 1"
    by (simp add: uint_plus_if')
  with l show "L + 1 < 2 ^ 63" by (simp add: word_less_alt)
qed

lemma inverted_range:
  assumes L: "(L :: 64 word) < 2 ^ 63 - 1" and T: "T < L"
  shows "sint T < sint (L + 1)"
proof -
  from L have "L < 2 ^ 63" by (simp add: word_less_alt)
  with T have "T < 2 ^ 63" by simp
  then have "sint T = uint T" by (rule sint_small)
  moreover have "sint (L + 1) = uint L + 1"
    using uint_succ [OF L] sint_small by simp
  moreover from T have "uint T < uint L" by (simp add: word_less_alt)
  ultimately show ?thesis by simp
qed

subsection \<open>Traces of the entry loop\<close>

lemma decodeCalls_append: "decodeCalls (xs @ ys) = decodeCalls xs @ decodeCalls ys"
  by (induction xs rule: decodeCalls.induct) auto

lemma rangeCalls_append: "rangeCalls (xs @ ys) = rangeCalls xs @ rangeCalls ys"
  by (induction xs rule: rangeCalls.induct) auto

lemma storeMatch_calls:
  "decodeCalls (snd (storeMatch w s i entry cert)) = [] \<and>
   rangeCalls (snd (storeMatch w s i entry cert)) = []"
  by (auto simp: storeMatch_def Let_def split: prod.splits bool.splits sum.splits option.splits)

lemma matchEntry_calls:
  "decodeCalls (snd (matchEntry w s i entry le)) = [] \<and>
   rangeCalls (snd (matchEntry w s i entry le)) = []"
  by (auto simp: matchEntry_def storeMatch_calls split: option.splits)

lemma processEntry_fatal:
  "LogEntryFromLeaf w (start + of_nat i) entry = ParseFatal \<Longrightarrow>
   processEntry w s start i entry = (None, [CallLogEntryFromLeaf (start + of_nat i) entry])"
  by (simp add: processEntry_def Let_def)

lemma processEntry_decoded:
  "LogEntryFromLeaf w (start + of_nat i) entry = ParseOk le \<or>
   LogEntryFromLeaf w (start + of_nat i) entry = ParseNonFatal le \<Longrightarrow>
   processEntry w s start i entry =
     (fst (matchEntry w s i entry le),
      CallLogEntryFromLeaf (start + of_nat i) entry # snd (matchEntry w s i entry le))"
  by (auto simp: processEntry_def Let_def split: prod.splits)

lemma processEntry_calls:
  "decodeCalls (snd (processEntry w s start i entry)) = [(start + of_nat i, entry)] \<and>
   rangeCalls (snd (processEntry w s start i entry)) = []"
proof (cases "LogEntryFromLeaf w (start + of_nat i) entry")
  case (ParseOk le)
  then show ?thesis
    using matchEntry_calls [of w s i entry le] processEntry_decoded [of w start i entry le s]
    by simp
next
  case (ParseNonFatal le)
  then show ?thesis
    using matchEntry_calls [of w s i entry le] processEntry_decoded [of w start i entry le s]
    by simp
next
  case ParseFatal
  then show ?thesis by (simp add: processEntry_fatal)
qed

lemma processEntries_shape:
  "processEntries w s start i es = (r, evs, n) \<Longrightarrow>
     n \<le> length es \<and> (r = None \<longrightarrow> n = length es) \<and> rangeCalls evs = [] \<and>
     decodeCalls evs = map (\<lambda>k. (start + of_nat (i + k), es ! k)) [0..<n]"
proof (induction es arbitrary: i r evs n)
  case Nil
  then show ?case by simp
next
  case (Cons entry rest)
  obtain err evs0 where pe: "processEntry w s start i entry = (err, evs0)"
    by (cases "processEntry w s start i entry")
  have d0: "decodeCalls evs0 = [(start + of_nat i, entry)]" "rangeCalls evs0 = []"
    using processEntry_calls [of w s start i entry] pe by simp_all
  show ?case
  proof (cases err)
    case (Some e)
    with Cons.prems pe d0 show ?thesis by auto
  next
    case None
    obtain r' evs' n' where rec: "processEntries w s start (Suc i) rest = (r', evs', n')"
      by (cases "processEntries w s start (Suc i) rest")
    from Cons.IH [OF rec] have ih: "n' \<le> length rest" "r' = None \<longrightarrow> n' = length rest"
      "rangeCalls evs' = []"
      "decodeCalls evs' = map (\<lambda>k. (start + of_nat (Suc i + k), rest ! k)) [0..<n']"
      by auto
    from Cons.prems pe None rec have eqs: "r = r'" "evs = evs0 @ evs'" "n = Suc n'"
      by auto
    have "map (\<lambda>k. (start + of_nat (i + k), (entry # rest) ! k)) [0..<Suc n'] =
          (start + of_nat i, entry) # map (\<lambda>k. (start + of_nat (Suc i + k), rest ! k)) [0..<n']"
      by (simp add: map_upt_Suc ac_simps del: upt_Suc)
    with ih eqs d0 show ?thesis
      by (simp add: decodeCalls_append rangeCalls_append del: upt_Suc)
  qed
qed

subsection \<open>The branches of processLog\<close>

lemma processLog_sthErr:
  "clientNew w (URL state) = Inr lc \<Longrightarrow> GetSTH lc = Inl err \<Longrightarrow>
   processLog w s state =
     \<lparr>ret = Inr state, events = [CallGetSTH (URL state)], entriesSeen = 0\<rparr>"
  by (simp add: processLog_def)

lemma processLog_init:
  "clientNew w (URL state) = Inr lc \<Longrightarrow> GetSTH lc = Inr T \<Longrightarrow> LastFetched state = 0 \<Longrightarrow>
   processLog w s state =
     \<lparr>ret = Inr (state\<lparr>LastFetched := T, LastFetchedTime := timeNow w\<rparr>),
      events = [CallGetSTH (URL state)], entriesSeen = 0\<rparr>"
  by (simp add: processLog_def)

lemma processLog_unchanged:
  "clientNew w (URL state) = Inr lc \<Longrightarrow> GetSTH lc = Inr T \<Longrightarrow> LastFetched state \<noteq> 0 \<Longrightarrow>
   T = LastFetched state \<Longrightarrow>
   processLog w s state =
     \<lparr>ret = Inr state, events = [CallGetSTH (URL state)], entriesSeen = 0\<rparr>"
  by (simp add: processLog_def)

lemma processLog_fetchErr:
  "clientNew w (URL state) = Inr lc \<Longrightarrow> GetSTH lc = Inr T \<Longrightarrow> LastFetched state \<noteq> 0 \<Longrightarrow>
   T \<noteq> LastFetched state \<Longrightarrow> GetRawEntries lc (LastFetched state + 1) T = Inl err \<Longrightarrow>
   processLog w s state =
     \<lparr>ret = Inr state,
      events = [CallGetSTH (URL state),
                CallGetRawEntries (URL state) (LastFetched state + 1) T],
      entriesSeen = 0\<rparr>"
  by (simp add: processLog_def Let_def)

lemma processLog_advance:
  "clientNew w (URL state) = Inr lc \<Longrightarrow> GetSTH lc = Inr T \<Longrightarrow> LastFetched state \<noteq> 0 \<Longrightarrow>
   T \<noteq> LastFetched state \<Longrightarrow> GetRawEntries lc (LastFetched state + 1) T = Inr es \<Longrightarrow>
   processEntries w s (LastFetched state + 1) 0 es = (r, evs, n) \<Longrightarrow>
   processLog w s state =
     \<lparr>ret = (case r of Some err \<Rightarrow> Inl err
             | None \<Rightarrow> Inr (state\<lparr>LastFetched := T, LastFetchedTime := timeNow w\<rparr>)),
      events = [CallGetSTH (URL state),
                CallGetRawEntries (URL state) (LastFetched state + 1) T] @ evs,
      entriesSeen = n\<rparr>"
  by (simp add: processLog_def Let_def split: option.splits)


text \<open>What a returned state can be.\<close>

lemma processLog_ret:
  assumes "ret (processLog w s state) = Inr st'"
  shows "st' = state \<or>
         (\<exists>lc T. clientNew w (URL state) = Inr lc \<and> GetSTH lc = Inr T \<and>
            st' = state\<lparr>LastFetched := T, LastFetchedTime := timeNow w\<rparr> \<and>
            (LastFetched state = 0 \<or>
             (T \<noteq> LastFetched state \<and>
              (\<exists>es. GetRawEntries lc (LastFetched state + 1) T = Inr es))))"
  using assms
  by (auto simp: processLog_def Let_def split: sum.splits if_splits prod.splits option.splits)

subsection \<open>First sync, advance and soft failure\<close>

text \<open>
  C2. A log whose stored watermark is 10 and whose size is now 15: the task asks
  \<^verbatim>\<open>GetRawEntries\<close> for start 11 and end 15, decodes the four entries 11 to 14 it
  gets and stores watermark 15. The entry at index 10, the first one appended after
  the watermark was taken, is never requested, although its name matches a rule.
\<close>

theorem advance_request_off_by_one:
  "processLog (exWorld (exLog exEntries 1000)) exServer (exState 10) =
     \<lparr>ret = Inr (exState 10\<lparr>LastFetched := 15, LastFetchedTime := 77\<rparr>),
      events = [CallGetSTH ''log.example'', CallGetRawEntries ''log.example'' 11 15,
                CallLogEntryFromLeaf 11 ''a11.org'',
                CallLogEntryFromLeaf 12 ''mail.google.com'',
                CallPutObject ''certs/T-R-mail.google.com.json'' ''mail.google.com'',
                CallLogEntryFromLeaf 13 ''evilgoogle.com'',
                CallLogEntryFromLeaf 14 ''a14.org''],
      entriesSeen = 4\<rparr> \<and>
   exEntries ! 10 = ''www.google.com'' \<and>
   fst (nameMatches exServer \<lparr>DNSNames = [''www.google.com'']\<rparr>)"
  by (simp add: exWorld_def exLog_def exServer_def exState_def exEntries_def
      exDecode_def exCert_def processLog_def processEntry_def matchEntry_def storeMatch_def
      selectCert_def nameMatches_def domainHit_def HasSuffix_def suffix_to_prefix
      artifactKey_def Let_def)

text \<open>
  C3. A task started with \<open>LastFetched = 0\<close> never calls \<^verbatim>\<open>GetRawEntries\<close>; when
  the size query answers \<open>T\<close>, the task's only call is that query and it returns the
  state with \<open>LastFetched = T\<close> and the current time.
\<close>

theorem first_sync_initializes_without_fetch:
  assumes "LastFetched state = 0"
  shows "rangeCalls (events (processLog w s state)) = [] \<and>
         (\<forall>lc T. clientNew w (URL state) = Inr lc \<longrightarrow> GetSTH lc = Inr T \<longrightarrow>
            processLog w s state =
              \<lparr>ret = Inr (state\<lparr>LastFetched := T, LastFetchedTime := timeNow w\<rparr>),
               events = [CallGetSTH (URL state)], entriesSeen = 0\<rparr>)"
proof -
  have "rangeCalls (events (processLog w s state)) = []"
    using assms by (simp add: processLog_def split: sum.splits)
  moreover have "\<forall>lc T. clientNew w (URL state) = Inr lc \<longrightarrow> GetSTH lc = Inr T \<longrightarrow>
            processLog w s state =
              \<lparr>ret = Inr (state\<lparr>LastFetched := T, LastFetchedTime := timeNow w\<rparr>),
               events = [CallGetSTH (URL state)], entriesSeen = 0\<rparr>"
    using assms by (simp add: processLog_init)
  ultimately show ?thesis by simp
qed

theorem first_sync_initializes_without_fetch_witness:
  "LastFetched (exState 0) = 0 \<and>
   clientNew (exWorld (exLog exEntries 1000)) (URL (exState 0)) = Inr (exLog exEntries 1000) \<and>
   GetSTH (exLog exEntries 1000) = Inr 15 \<and>
   rangeCalls (events (processLog (exWorld (exLog exEntries 1000)) exServer (exState 0))) = [] \<and>
   processLog (exWorld (exLog exEntries 1000)) exServer (exState 0) =
     \<lparr>ret = Inr (exState 0\<lparr>LastFetched := 15, LastFetchedTime := 77\<rparr>),
      events = [CallGetSTH ''log.example''], entriesSeen = 0\<rparr>"
proof -
  have h: "LastFetched (exState 0) = 0" by (simp add: exState_def)
  have c: "clientNew (exWorld (exLog exEntries 1000)) (URL (exState 0)) = Inr (exLog exEntries 1000)"
    by (simp add: exWorld_def)
  have g: "GetSTH (exLog exEntries 1000) = Inr 15"
    by (simp add: exLog_def exEntries_def)
  from first_sync_initializes_without_fetch [OF h, of "exWorld (exLog exEntries 1000)" exServer]
  show ?thesis using h c g by (simp add: exWorld_def exState_def)
qed

text \<open>
  C5. When the size query fails, or the range request is made and fails, the task
  returns no error but the very state it was started with; the collecting loop stores
  that state under the log's URL and goes on with the other results.
\<close>

theorem transport_error_is_soft:
  assumes "clientNew w (URL state) = Inr lc"
    and "(\<exists>err. GetSTH lc = Inl err) \<or>
         (\<exists>T err. GetSTH lc = Inr T \<and> LastFetched state \<noteq> 0 \<and> T \<noteq> LastFetched state \<and>
                   GetRawEntries lc (LastFetched state + 1) T = Inl err)"
  shows "ret (processLog w s state) = Inr state \<and>
         collect (ret (processLog w s state) # rest) (Some m) =
           collect rest (Some (m(URL state \<mapsto> state)))"
proof -
  have "ret (processLog w s state) = Inr state"
    using assms by (auto simp: processLog_sthErr processLog_fetchErr)
  then show ?thesis by simp
qed

theorem transport_error_is_soft_witness:
  "clientNew (exWorld exDown) (URL (exState 10)) = Inr exDown \<and>
   GetSTH exDown = Inl (ExternalErr ''timeout'') \<and>
   ret (processLog (exWorld exDown) exServer (exState 10)) = Inr (exState 10) \<and>
   collect [ret (processLog (exWorld exDown) exServer (exState 10))] (Some Map.empty) =
     Inr (Some [''log.example'' \<mapsto> exState 10]) \<and>
   clientNew (exWorld (exLog exEntries 1000)) (URL (exState 20)) = Inr (exLog exEntries 1000) \<and>
   GetSTH (exLog exEntries 1000) = Inr 15 \<and>
   GetRawEntries (exLog exEntries 1000) (LastFetched (exState 20) + 1) 15 =
     Inl (ExternalErr ''bad range'') \<and>
   ret (processLog (exWorld (exLog exEntries 1000)) exServer (exState 20)) = Inr (exState 20)"
proof -
  have c1: "clientNew (exWorld exDown) (URL (exState 10)) = Inr exDown"
    by (simp add: exWorld_def)
  have g1: "GetSTH exDown = Inl (ExternalErr ''timeout'')"
    by (simp add: exDown_def)
  have u: "URL (exState 10) = ''log.example''" by (simp add: exState_def)
  have c2: "clientNew (exWorld (exLog exEntries 1000)) (URL (exState 20)) =
      Inr (exLog exEntries 1000)"
    by (simp add: exWorld_def)
  have g2: "GetSTH (exLog exEntries 1000) = Inr 15"
    by (simp add: exLog_def exEntries_def)
  have f2: "GetRawEntries (exLog exEntries 1000) (LastFetched (exState 20) + 1) 15 =
      Inl (ExternalErr ''bad range'')"
    by (simp add: exLog_def exState_def)
  have n2: "LastFetched (exState 20) \<noteq> 0" "(15 :: uint64) \<noteq> LastFetched (exState 20)"
    by (simp_all add: exState_def)
  from transport_error_is_soft [OF c1, of exServer "[]" Map.empty] g1 u
  have a: "ret (processLog (exWorld exDown) exServer (exState 10)) = Inr (exState 10) \<and>
     collect [ret (processLog (exWorld exDown) exServer (exState 10))] (Some Map.empty) =
       Inr (Some [''log.example'' \<mapsto> exState 10])"
    by simp
  from transport_error_is_soft [OF c2, of exServer "[]" Map.empty] g2 f2 n2
  have b: "ret (processLog (exWorld (exLog exEntries 1000)) exServer (exState 20)) =
      Inr (exState 20)"
    by simp
  from a b c1 g1 c2 g2 f2 show ?thesis by blast
qed

subsection \<open>The watermark along a sequence of runs\<close>

text \<open>
  One run of a task, in orderly surroundings and from a watermark below \<open>2^63 - 1\<close>:
  the state carried to the next run has a watermark that is not smaller (as unsigned
  numbers) and is again below \<open>2^63 - 1\<close>.
\<close>

lemma nextState_monotone:
  assumes ow: "orderlyWorld w" and L: "LastFetched state < 2 ^ 63 - 1"
  shows "LastFetched state \<le> LastFetched (case ret (processLog w s state) of
                                               Inl err \<Rightarrow> state | Inr st \<Rightarrow> st) \<and>
         LastFetched (case ret (processLog w s state) of
                        Inl err \<Rightarrow> state | Inr st \<Rightarrow> st) < 2 ^ 63 - 1"
proof (cases "ret (processLog w s state)")
  case (Inl err)
  with L show ?thesis by simp
next
  case (Inr st')
  from processLog_ret [OF Inr] show ?thesis
  proof
    assume "st' = state"
    with Inr L show ?thesis by simp
  next
    assume "\<exists>lc T. clientNew w (URL state) = Inr lc \<and> GetSTH lc = Inr T \<and>
            st' = state\<lparr>LastFetched := T, LastFetchedTime := timeNow w\<rparr> \<and>
            (LastFetched state = 0 \<or>
             (T \<noteq> LastFetched state \<and>
              (\<exists>es. GetRawEntries lc (LastFetched state + 1) T = Inr es)))"
    then obtain lc T where lc: "clientNew w (URL state) = Inr lc" and T: "GetSTH lc = Inr T"
      and st': "st' = state\<lparr>LastFetched := T, LastFetchedTime := timeNow w\<rparr>"
      and how: "LastFetched state = 0 \<or>
             (T \<noteq> LastFetched state \<and>
              (\<exists>es. GetRawEntries lc (LastFetched state + 1) T = Inr es))"
      by blast
    from ow lc T have ri: "refusesInverted lc" and Tb: "T < 2 ^ 63 - 1"
      by (auto simp: orderlyWorld_def)
    have "LastFetched state \<le> T"
    proof (rule ccontr)
      assume "\<not> LastFetched state \<le> T"
      then have lt: "T < LastFetched state" by simp
      then have "LastFetched state \<noteq> 0" by auto
      with how obtain es where es: "GetRawEntries lc (LastFetched state + 1) T = Inr es"
        by blast
      from inverted_range [OF L lt] ri have "isl (GetRawEntries lc (LastFetched state + 1) T)"
        by (simp add: refusesInverted_def)
      with es show False by simp
    qed
    with Inr st' Tb show ?thesis by simp
  qed
qed

section \<open>The run\<close>

lemma storeMatch_put_fail:
  "storeMatch w s i entry cert = (r, evs) \<Longrightarrow> CallPutObject key body \<in> set evs \<Longrightarrow>
   PutObject w key body = Some err \<Longrightarrow> r \<noteq> None"
  by (auto simp: storeMatch_def Let_def split: prod.splits bool.splits sum.splits option.splits)

lemma matchEntry_put_fail:
  "matchEntry w s i entry le = (r, evs) \<Longrightarrow> CallPutObject key body \<in> set evs \<Longrightarrow>
   PutObject w key body = Some err \<Longrightarrow> r \<noteq> None"
  by (auto simp: matchEntry_def split: option.splits dest: storeMatch_put_fail)

lemma processEntry_put_fail:
  "processEntry w s start i entry = (r, evs) \<Longrightarrow> CallPutObject key body \<in> set evs \<Longrightarrow>
   PutObject w key body = Some err \<Longrightarrow> r \<noteq> None"
  by (auto simp: processEntry_def Let_def split: prod.splits parse_result.splits if_splits
      dest: matchEntry_put_fail)

lemma processEntries_put_fail:
  "processEntries w s start i es = (r, evs, n) \<Longrightarrow> CallPutObject key body \<in> set evs \<Longrightarrow>
   PutObject w key body = Some err \<Longrightarrow> r \<noteq> None"
proof (induction es arbitrary: i r evs n)
  case Nil
  then show ?case by simp
next
  case (Cons entry rest)
  obtain e0 evs0 where pe: "processEntry w s start i entry = (e0, evs0)"
    by (cases "processEntry w s start i entry")
  show ?case
  proof (cases e0)
    case (Some e)
    with Cons.prems pe show ?thesis by auto
  next
    case None
    obtain r' evs' n' where rec: "processEntries w s start (Suc i) rest = (r', evs', n')"
      by (cases "processEntries w s start (Suc i) rest")
    from Cons.prems(1) pe None rec have eqs: "r = r'" "evs = evs0 @ evs'" by auto
    from processEntry_put_fail [OF pe _ Cons.prems(3)] None
    have "CallPutObject key body \<notin> set evs0" by auto
    with Cons.prems(2) eqs have "CallPutObject key body \<in> set evs'" by simp
    from Cons.IH [OF rec this Cons.prems(3)] eqs show ?thesis by simp
  qed
qed

lemma processLog_put_fail:
  assumes "CallPutObject key body \<in> set (events (processLog w s state))"
    and "PutObject w key body = Some err"
  shows "isl (ret (processLog w s state))"
  using assms
  by (auto simp: processLog_def Let_def
      split: sum.splits if_splits prod.splits option.splits dest: processEntries_put_fail)

lemma collect_abort: "Inl err \<in> set rs \<Longrightarrow> isl (collect rs states)"
  by (induction rs states rule: collect.induct) (auto split: option.splits)

lemma collect_Inl: "collect rs states = Inl err \<Longrightarrow> err = NilMapPanic \<or> Inl err \<in> set rs"
  by (induction rs states rule: collect.induct) (auto split: option.splits)

lemma syncAll_abort:
  assumes "mset (arrivalOrder e (map ret (map (processLog (theWorld e) s) (launched states logList)))) =
           mset (map ret (map (processLog (theWorld e) s) (launched states logList)))"
    and "t \<in> set (run_tasks (syncAll e s states logList))" and "isl (ret t)"
  shows "run_err (syncAll e s states logList) \<noteq> None \<and> run_calls (syncAll e s states logList) = []"
proof -
  let ?tasks = "map (processLog (theWorld e) s) (launched states logList)"
  have rt: "run_tasks (syncAll e s states logList) = ?tasks"
    by (simp add: syncAll_def Let_def persist_def split: sum.splits)
  with assms(2) have "ret t \<in> set (map ret ?tasks)" by auto
  moreover from assms(3) obtain err where "ret t = Inl err" by (cases "ret t") auto
  ultimately have "Inl err \<in> set (map ret ?tasks)" by simp
  with assms(1) have "Inl err \<in> set (arrivalOrder e (map ret ?tasks))"
    by (metis set_mset_mset)
  then have "isl (collect (arrivalOrder e (map ret ?tasks)) states)"
    by (rule collect_abort)
  then show ?thesis
    by (auto simp: syncAll_def Let_def split: sum.splits)
qed



lemma Handler_cases:
  "(\<exists>err. Handler e = failRun err) \<or>
   (\<exists>c states logList ps.
      getenvBucket e \<noteq> '''' \<and> loadDefaultConfig e = None \<and>
      loadAll e = Inr (c, states, logList) \<and>
      compilePatterns (regexpCompile e) (Patterns c) = Inr ps \<and>
      Handler e = syncAll e \<lparr>bucket = getenvBucket e, conf = c, patterns = ps\<rparr> states logList)"
  by (auto simp: Handler_def split: option.splits sum.splits prod.splits)

text \<open>
  C6. Whatever the order in which the results arrive: if a launched task made an
  artifact write that failed, then that task returned an error, \<^verbatim>\<open>Handler\<close> returns
  an error, and \<^verbatim>\<open>Handler\<close> made no call of its own, so the object
  \<open>log-state.json\<close> was not written, neither with the states collected before the
  error arrived nor with any other.
\<close>

theorem artifact_write_failure_aborts_run:
  assumes "\<forall>rs. mset (arrivalOrder e rs) = mset rs"
    and "t \<in> set (run_tasks (Handler e))"
    and "CallPutObject key body \<in> set (events t)"
    and "PutObject (theWorld e) key body = Some err"
  shows "isl (ret t) \<and> run_err (Handler e) \<noteq> None \<and> run_calls (Handler e) = []"
proof -
  from assms(2) have nofail: "\<And>err. Handler e \<noteq> failRun err"
    by (auto simp: failRun_def)
  with Handler_cases [of e] obtain c states logList ps where
    H: "Handler e = syncAll e \<lparr>bucket = getenvBucket e, conf = c, patterns = ps\<rparr> states logList"
    by blast
  let ?s = "\<lparr>bucket = getenvBucket e, conf = c, patterns = ps\<rparr>"
  have "run_tasks (syncAll e ?s states logList) =
        map (processLog (theWorld e) ?s) (launched states logList)"
    by (simp add: syncAll_def Let_def persist_def split: sum.splits)
  with assms(2) H obtain st where "t = processLog (theWorld e) ?s st" by auto
  with assms(3,4) have f: "isl (ret t)" by (auto dest: processLog_put_fail)
  from assms(1) have "mset (arrivalOrder e (map ret (map (processLog (theWorld e) ?s)
                        (launched states logList)))) =
                      mset (map ret (map (processLog (theWorld e) ?s) (launched states logList)))"
    by blast
  from syncAll_abort [OF this] assms(2) f H show ?thesis by simp
qed


theorem artifact_write_failure_aborts_run_witness:
  "(\<forall>rs. mset (arrivalOrder (exEnv exTwoLogs (Inr (conf exServer)) (Inr exStored)
                              (Inr exCatalog2)) rs) = mset rs) \<and>
   PutObject exTwoLogs ''certs/T-R-mail.google.com.json'' ''mail.google.com'' =
     Some (ExternalErr ''AccessDenied'') \<and>
   run_tasks (Handler (exEnv exTwoLogs (Inr (conf exServer)) (Inr exStored) (Inr exCatalog2))) =
     [\<lparr>ret = Inl (S3PutObjectErr (ExternalErr ''AccessDenied'')),
       events = [CallGetSTH ''log.example'', CallGetRawEntries ''log.example'' 11 15,
                 CallLogEntryFromLeaf 11 ''a11.org'',
                 CallLogEntryFromLeaf 12 ''mail.google.com'',
                 CallPutObject ''certs/T-R-mail.google.com.json'' ''mail.google.com''],
       entriesSeen = 2\<rparr>,
      \<lparr>ret = Inr ((exState 7)\<lparr>URL := ''down.example''\<rparr>),
       events = [CallGetSTH ''down.example''], entriesSeen = 0\<rparr>] \<and>
   run_err (Handler (exEnv exTwoLogs (Inr (conf exServer)) (Inr exStored) (Inr exCatalog2))) \<noteq>
     None \<and>
   run_calls (Handler (exEnv exTwoLogs (Inr (conf exServer)) (Inr exStored) (Inr exCatalog2))) = []"
proof -
  let ?E = "exEnv exTwoLogs (Inr (conf exServer)) (Inr exStored) (Inr exCatalog2)"
  let ?t = "\<lparr>ret = Inl (S3PutObjectErr (ExternalErr ''AccessDenied'')),
       events = [CallGetSTH ''log.example'', CallGetRawEntries ''log.example'' 11 15,
                 CallLogEntryFromLeaf 11 ''a11.org'',
                 CallLogEntryFromLeaf 12 ''mail.google.com'',
                 CallPutObject ''certs/T-R-mail.google.com.json'' ''mail.google.com''],
       entriesSeen = 2\<rparr>"
  have a: "\<forall>rs. mset (arrivalOrder ?E rs) = mset rs"
    by (simp add: exEnv_def)
  have w: "theWorld ?E = exTwoLogs" by (simp add: exEnv_def)
  have p: "PutObject exTwoLogs ''certs/T-R-mail.google.com.json'' ''mail.google.com'' =
     Some (ExternalErr ''AccessDenied'')"
    by (simp add: exTwoLogs_def exReadOnly_def)
  have ts: "run_tasks (Handler ?E) =
     [?t, \<lparr>ret = Inr ((exState 7)\<lparr>URL := ''down.example''\<rparr>),
           events = [CallGetSTH ''down.example''], entriesSeen = 0\<rparr>]"
    by (simp add: Handler_def loadAll_def syncAll_def launched_def taskState_def
        lookupState_def persist_def exEnv_def exTwoLogs_def exReadOnly_def exCatalog2_def
        exStored_def exCompile_def exDown_def
        exWorld_def exLog_def exServer_def exState_def exEntries_def
        exDecode_def exCert_def processLog_def processEntry_def matchEntry_def
        storeMatch_def selectCert_def nameMatches_def domainHit_def HasSuffix_def
        suffix_to_prefix artifactKey_def Let_def)
  then have m: "?t \<in> set (run_tasks (Handler ?E))" by simp
  have ev: "CallPutObject ''certs/T-R-mail.google.com.json'' ''mail.google.com'' \<in>
      set (events ?t)"
    by simp
  from p w have p': "PutObject (theWorld ?E) ''certs/T-R-mail.google.com.json''
      ''mail.google.com'' = Some (ExternalErr ''AccessDenied'')"
    by simp
  from artifact_write_failure_aborts_run [OF a m ev p']
  have "run_err (Handler ?E) \<noteq> None \<and> run_calls (Handler ?E) = []" by simp
  with a p ts show ?thesis by blast
qed

lemma compilePatterns_fail:
  "p \<in> set ps \<Longrightarrow> compile p = Inl err \<Longrightarrow>
   \<exists>p' err'. compilePatterns compile ps = Inl (RegexCompileErr p' err')"
  by (induction ps) (auto split: sum.splits)

text \<open>
  C7. If the loaded configuration holds a pattern that does not compile, \<^verbatim>\<open>Handler\<close>
  returns an error having launched no task and written nothing; when the environment
  variable, the AWS configuration and the catalog are in order, the error is the
  compile error of a pattern.
\<close>

theorem invalid_pattern_fails_before_sync:
  assumes "loadConfig e = Inr c" and "p \<in> set (Patterns c)" and "regexpCompile e p = Inl err"
  shows "run_err (Handler e) \<noteq> None \<and> run_tasks (Handler e) = [] \<and>
         run_calls (Handler e) = [] \<and>
         (getenvBucket e \<noteq> '''' \<and> loadDefaultConfig e = None \<and> \<not> isl (fetchLogList e) \<longrightarrow>
            (\<exists>p' err'. run_err (Handler e) = Some (RegexCompileErr p' err')))"
proof -
  from compilePatterns_fail [of p "Patterns c" "regexpCompile e" err] assms(2,3) obtain p' err' where
    cp: "compilePatterns (regexpCompile e) (Patterns c) = Inl (RegexCompileErr p' err')"
    by blast
  have la: "loadAll e = Inr (c', states, logList) \<Longrightarrow> c' = c" for c' states logList
    using assms(1) by (auto simp: loadAll_def Let_def split: sum.splits)
  have "\<exists>x. Handler e = failRun x"
    using cp la
    by (auto simp: Handler_def split: option.splits sum.splits prod.splits)
  moreover have "getenvBucket e \<noteq> '''' \<and> loadDefaultConfig e = None \<and> \<not> isl (fetchLogList e) \<longrightarrow>
            Handler e = failRun (RegexCompileErr p' err')"
    using cp assms(1)
    by (auto simp: Handler_def loadAll_def Let_def split: option.splits sum.splits prod.splits)
  ultimately show ?thesis by (auto simp: failRun_def)
qed

theorem invalid_pattern_fails_before_sync_witness:
  "loadConfig (exEnv (exWorld (exLog exEntries 1000))
                 (Inr ((conf exServer)\<lparr>Patterns := [''^www.*'', ''(''] \<rparr>))
                 (Inr exStored) (Inr exCatalog)) =
     Inr ((conf exServer)\<lparr>Patterns := [''^www.*'', ''(''] \<rparr>) \<and>
   ''('' \<in> set (Patterns ((conf exServer)\<lparr>Patterns := [''^www.*'', ''(''] \<rparr>)) \<and>
   exCompile ''('' = Inl (ExternalErr ''missing closing )'') \<and>
   Handler (exEnv (exWorld (exLog exEntries 1000))
                 (Inr ((conf exServer)\<lparr>Patterns := [''^www.*'', ''(''] \<rparr>))
                 (Inr exStored) (Inr exCatalog)) =
     \<lparr>run_err = Some (RegexCompileErr ''('' (ExternalErr ''missing closing )'')),
      run_tasks = [], run_calls = []\<rparr>"
proof -
  let ?c = "(conf exServer)\<lparr>Patterns := [''^www.*'', ''(''] \<rparr>"
  let ?E = "exEnv (exWorld (exLog exEntries 1000)) (Inr ?c) (Inr exStored) (Inr exCatalog)"
  have a: "loadConfig ?E = Inr ?c" by (simp add: exEnv_def)
  have b: "''('' \<in> set (Patterns ?c)" by simp
  have c: "exCompile ''('' = Inl (ExternalErr ''missing closing )'')"
    by (simp add: exCompile_def)
  then have c': "regexpCompile ?E ''('' = Inl (ExternalErr ''missing closing )'')"
    by (simp add: exEnv_def)
  have ok: "getenvBucket ?E \<noteq> '''' \<and> loadDefaultConfig ?E = None \<and> \<not> isl (fetchLogList ?E)"
    by (simp add: exEnv_def)
  have v: "run_err (Handler ?E) = Some (RegexCompileErr ''('' (ExternalErr ''missing closing )''))"
    by (simp add: Handler_def loadAll_def exEnv_def exCompile_def failRun_def)
  from invalid_pattern_fails_before_sync [OF a b c']
  have "run_tasks (Handler ?E) = [] \<and> run_calls (Handler ?E) = []" by simp
  with v have "Handler ?E =
     \<lparr>run_err = Some (RegexCompileErr ''('' (ExternalErr ''missing closing )'')),
      run_tasks = [], run_calls = []\<rparr>"
    by (cases "Handler ?E") simp
  with a b c show ?thesis by blast
qed


lemma processLog_first_no_fetch:
  "LastFetched state = 0 \<Longrightarrow> rangeCalls (events (processLog w s state)) = []"
  by (simp add: processLog_def split: sum.splits)

lemma launched_fresh: "st \<in> set (launched (Some Map.empty) logList) \<Longrightarrow> LastFetched st = 0"
  by (auto simp: launched_def taskState_def lookupState_def)

lemma syncAll_tasks:
  "run_tasks (syncAll e s states logList) =
     map (processLog (theWorld e) s) (launched states logList)"
  by (simp add: syncAll_def Let_def persist_def split: sum.splits)

lemma loadAll_tolerates:
  "fetchLogState e = Inl err \<Longrightarrow>
   loadAll (e\<lparr>fetchLogState := Inr (Some Map.empty)\<rparr>) = loadAll e"
  by (simp add: loadAll_def split: sum.splits)

lemma syncAll_fetchLogState:
  "syncAll (e\<lparr>fetchLogState := x\<rparr>) s states logList = syncAll e s states logList"
  by (simp add: syncAll_def persist_def Let_def split: sum.splits)

text \<open>
  C8. When loading the log states fails, the run is the run that an empty loaded map
  gives: every task is started from a fresh state with \<open>LastFetched = 0\<close> and none of
  them requests a range. When loading the configuration or the catalog fails,
  \<^verbatim>\<open>Handler\<close> returns an error having launched no task and written nothing.
\<close>

theorem state_load_failure_is_tolerated:
  "(\<forall>err. fetchLogState e = Inl err \<longrightarrow>
      Handler e = Handler (e\<lparr>fetchLogState := Inr (Some Map.empty)\<rparr>) \<and>
      (\<forall>c states logList. loadAll e = Inr (c, states, logList) \<longrightarrow>
         states = Some Map.empty \<and>
         (\<forall>st \<in> set (launched states logList). LastFetched st = 0)) \<and>
      (\<forall>t \<in> set (run_tasks (Handler e)). rangeCalls (events t) = [])) \<and>
   (\<forall>err. loadConfig e = Inl err \<or> fetchLogList e = Inl err \<longrightarrow>
      run_err (Handler e) \<noteq> None \<and> run_tasks (Handler e) = [] \<and> run_calls (Handler e) = [])"
proof -
  have a: "Handler e = Handler (e\<lparr>fetchLogState := Inr (Some Map.empty)\<rparr>)"
    if "fetchLogState e = Inl err" for err
    using that
    by (simp add: Handler_def loadAll_tolerates syncAll_fetchLogState
        split: option.splits sum.splits prod.splits)
  have b: "states = Some Map.empty \<and> (\<forall>st \<in> set (launched states logList). LastFetched st = 0)"
    if "fetchLogState e = Inl err" and "loadAll e = Inr (c, states, logList)"
    for err c states logList
  proof -
    from that have "states = Some Map.empty"
      by (auto simp: loadAll_def Let_def split: sum.splits)
    then show ?thesis by (auto dest: launched_fresh)
  qed
  have c: "rangeCalls (events t) = []"
    if f: "fetchLogState e = Inl err" and t: "t \<in> set (run_tasks (Handler e))" for err t
  proof -
    from t have "\<And>x. Handler e \<noteq> failRun x" by (auto simp: failRun_def)
    with Handler_cases [of e] obtain c states logList ps where
      la: "loadAll e = Inr (c, states, logList)" and
      H: "Handler e = syncAll e \<lparr>bucket = getenvBucket e, conf = c, patterns = ps\<rparr> states logList"
      by blast
    from b [OF f la] have fresh: "\<forall>st \<in> set (launched states logList). LastFetched st = 0"
      by simp
    from t H obtain st where "st \<in> set (launched states logList)"
      and "t = processLog (theWorld e) \<lparr>bucket = getenvBucket e, conf = c, patterns = ps\<rparr> st"
      by (auto simp: syncAll_tasks)
    with fresh show ?thesis by (simp add: processLog_first_no_fetch)
  qed
  have d: "run_err (Handler e) \<noteq> None \<and> run_tasks (Handler e) = [] \<and> run_calls (Handler e) = []"
    if "loadConfig e = Inl err \<or> fetchLogList e = Inl err" for err
  proof -
    from that have "\<exists>x. loadAll e = Inl x"
      by (auto simp: loadAll_def Let_def split: sum.splits)
    then have "\<exists>x. Handler e = failRun x"
      by (auto simp: Handler_def split: option.splits)
    then show ?thesis by (auto simp: failRun_def)
  qed
  from a b c d show ?thesis by blast
qed

theorem state_load_failure_is_tolerated_witness:
  "fetchLogState (exEnv (exWorld (exLog exEntries 1000)) (Inr (conf exServer))
                    (Inl (ExternalErr ''NoSuchKey'')) (Inr exCatalog)) =
     Inl (ExternalErr ''NoSuchKey'') \<and>
   Handler (exEnv (exWorld (exLog exEntries 1000)) (Inr (conf exServer))
              (Inl (ExternalErr ''NoSuchKey'')) (Inr exCatalog)) =
   Handler (exEnv (exWorld (exLog exEntries 1000)) (Inr (conf exServer))
              (Inr (Some Map.empty)) (Inr exCatalog)) \<and>
   Handler (exEnv (exWorld (exLog exEntries 1000)) (Inr (conf exServer))
              (Inl (ExternalErr ''NoSuchKey'')) (Inr exCatalog)) =
     \<lparr>run_err = None,
      run_tasks = [\<lparr>ret = Inr (exState 0\<lparr>LastFetched := 15, LastFetchedTime := 77\<rparr>),
                    events = [CallGetSTH ''log.example''], entriesSeen = 0\<rparr>],
      run_calls = [CallPutObject ''log-state.json'' ''{log.example}'']\<rparr> \<and>
   loadConfig (exEnv (exWorld (exLog exEntries 1000)) (Inl (ExternalErr ''NoSuchKey''))
                 (Inr exStored) (Inr exCatalog)) = Inl (ExternalErr ''NoSuchKey'') \<and>
   Handler (exEnv (exWorld (exLog exEntries 1000)) (Inl (ExternalErr ''NoSuchKey''))
              (Inr exStored) (Inr exCatalog)) =
     \<lparr>run_err = Some (LoadConfigErr (ExternalErr ''NoSuchKey'')),
      run_tasks = [], run_calls = []\<rparr> \<and>
   fetchLogList (exEnv (exWorld (exLog exEntries 1000)) (Inr (conf exServer))
                   (Inr exStored) (Inl (ExternalErr ''no route''))) =
     Inl (ExternalErr ''no route'') \<and>
   Handler (exEnv (exWorld (exLog exEntries 1000)) (Inr (conf exServer))
              (Inr exStored) (Inl (ExternalErr ''no route''))) =
     \<lparr>run_err = Some (FetchLogListErr (ExternalErr ''no route'')),
      run_tasks = [], run_calls = []\<rparr>"
proof -
  let ?W = "exWorld (exLog exEntries 1000)"
  let ?E1 = "exEnv ?W (Inr (conf exServer)) (Inl (ExternalErr ''NoSuchKey'')) (Inr exCatalog)"
  let ?E1' = "exEnv ?W (Inr (conf exServer)) (Inr (Some Map.empty)) (Inr exCatalog)"
  let ?E2 = "exEnv ?W (Inl (ExternalErr ''NoSuchKey'')) (Inr exStored) (Inr exCatalog)"
  let ?E3 = "exEnv ?W (Inr (conf exServer)) (Inr exStored) (Inl (ExternalErr ''no route''))"
  have f1: "fetchLogState ?E1 = Inl (ExternalErr ''NoSuchKey'')" by (simp add: exEnv_def)
  have u: "?E1\<lparr>fetchLogState := Inr (Some Map.empty)\<rparr> = ?E1'" by (simp add: exEnv_def)
  have f2: "loadConfig ?E2 = Inl (ExternalErr ''NoSuchKey'')" by (simp add: exEnv_def)
  have f3: "fetchLogList ?E3 = Inl (ExternalErr ''no route'')" by (simp add: exEnv_def)
  from state_load_failure_is_tolerated [of ?E1] f1 u
  have a: "Handler ?E1 = Handler ?E1'" by simp
  have v1: "Handler ?E1' =
     \<lparr>run_err = None,
      run_tasks = [\<lparr>ret = Inr (exState 0\<lparr>LastFetched := 15, LastFetchedTime := 77\<rparr>),
                    events = [CallGetSTH ''log.example''], entriesSeen = 0\<rparr>],
      run_calls = [CallPutObject ''log-state.json'' ''{log.example}'']\<rparr>"
    by (simp add: Handler_def loadAll_def syncAll_def launched_def taskState_def
        lookupState_def persist_def logStateKey_def exEnv_def exCatalog_def exMarshal_def
        exWorld_def exLog_def exServer_def exState_def exEntries_def processLog_def Let_def)
  have e2: "run_err (Handler ?E2) = Some (LoadConfigErr (ExternalErr ''NoSuchKey''))"
    by (simp add: Handler_def loadAll_def exEnv_def failRun_def)
  have e3: "run_err (Handler ?E3) = Some (FetchLogListErr (ExternalErr ''no route''))"
    by (simp add: Handler_def loadAll_def exEnv_def failRun_def)
  from state_load_failure_is_tolerated [of ?E2] f2
  have "run_tasks (Handler ?E2) = [] \<and> run_calls (Handler ?E2) = []" by blast
  with e2 have b: "Handler ?E2 =
     \<lparr>run_err = Some (LoadConfigErr (ExternalErr ''NoSuchKey'')),
      run_tasks = [], run_calls = []\<rparr>"
    by (cases "Handler ?E2") simp
  from state_load_failure_is_tolerated [of ?E3] f3
  have "run_tasks (Handler ?E3) = [] \<and> run_calls (Handler ?E3) = []" by blast
  with e3 have c: "Handler ?E3 =
     \<lparr>run_err = Some (FetchLogListErr (ExternalErr ''no route'')),
      run_tasks = [], run_calls = []\<rparr>"
    by (cases "Handler ?E3") simp
  from f1 a v1 f2 b f3 c show ?thesis by simp
qed

section \<open>Decode errors during the advance\<close>

text \<open>No marshal and no write fails: the loop runs to its end.\<close>

lemma storeMatch_ok:
  "\<not> isl (jsonMarshal w entry) \<Longrightarrow> \<forall>key body. PutObject w key body = None \<Longrightarrow>
   fst (storeMatch w s i entry cert) = None"
  by (auto simp: storeMatch_def Let_def split: prod.splits bool.splits sum.splits option.splits)

lemma matchEntry_ok:
  "\<not> isl (jsonMarshal w entry) \<Longrightarrow> \<forall>key body. PutObject w key body = None \<Longrightarrow>
   fst (matchEntry w s i entry le) = None"
  by (simp add: matchEntry_def storeMatch_ok split: option.splits)

lemma processEntry_ok:
  "\<not> isl (jsonMarshal w entry) \<Longrightarrow> \<forall>key body. PutObject w key body = None \<Longrightarrow>
   fst (processEntry w s start i entry) = None"
proof (cases "LogEntryFromLeaf w (start + of_nat i) entry")
  case (ParseOk le)
  assume "\<not> isl (jsonMarshal w entry)" "\<forall>key body. PutObject w key body = None"
  then show ?thesis
    using processEntry_decoded [of w start i entry le s] ParseOk matchEntry_ok [of w entry s i le]
    by simp
next
  case (ParseNonFatal le)
  assume "\<not> isl (jsonMarshal w entry)" "\<forall>key body. PutObject w key body = None"
  then show ?thesis
    using processEntry_decoded [of w start i entry le s] ParseNonFatal
      matchEntry_ok [of w entry s i le]
    by simp
next
  case ParseFatal
  then show ?thesis by (simp add: processEntry_fatal)
qed

lemma processEntries_ok:
  "\<forall>entry \<in> set es. \<not> isl (jsonMarshal w entry) \<Longrightarrow>
   \<forall>key body. PutObject w key body = None \<Longrightarrow>
   processEntries w s start i es =
     (None, concat (map (\<lambda>k. snd (processEntry w s start (i + k) (es ! k))) [0..<length es]),
      length es)"
proof (induction es arbitrary: i)
  case Nil
  show ?case by simp
next
  case (Cons entry rest)
  from Cons.prems have ok: "fst (processEntry w s start i entry) = None"
    by (simp add: processEntry_ok)
  then obtain evs0 where pe: "processEntry w s start i entry = (None, evs0)"
    by (cases "processEntry w s start i entry") simp
  from Cons.prems have "\<forall>entry \<in> set rest. \<not> isl (jsonMarshal w entry)" by simp
  from Cons.IH [OF this Cons.prems(2), of "Suc i"]
  have ih: "processEntries w s start (Suc i) rest =
     (None, concat (map (\<lambda>k. snd (processEntry w s start (Suc i + k) (rest ! k)))
                        [0..<length rest]), length rest)" .
  have "map (\<lambda>k. snd (processEntry w s start (i + k) ((entry # rest) ! k)))
            [0..<Suc (length rest)] =
        snd (processEntry w s start i entry) #
        map (\<lambda>k. snd (processEntry w s start (Suc i + k) (rest ! k))) [0..<length rest]"
    by (simp add: map_upt_Suc del: upt_Suc)
  with pe ih show ?case by (simp del: upt_Suc)
qed


lemma processLog_advance_ok:
  assumes "clientNew w (URL state) = Inr lc" and "GetSTH lc = Inr T"
    and "LastFetched state \<noteq> 0" and "T \<noteq> LastFetched state"
    and "GetRawEntries lc (LastFetched state + 1) T = Inr es"
    and "\<forall>entry \<in> set es. \<not> isl (jsonMarshal w entry)"
    and "\<forall>key body. PutObject w key body = None"
  shows "processLog w s state =
           \<lparr>ret = Inr (state\<lparr>LastFetched := T, LastFetchedTime := timeNow w\<rparr>),
            events = [CallGetSTH (URL state),
                      CallGetRawEntries (URL state) (LastFetched state + 1) T] @
                     concat (map (\<lambda>k. snd (processEntry w s (LastFetched state + 1) k (es ! k)))
                                 [0..<length es]),
            entriesSeen = length es\<rparr>"
  using processLog_advance [OF assms(1-5) processEntries_ok [OF assms(6,7), of s "LastFetched state + 1" 0]]
  by simp

lemma processLog_advance_decodeCalls:
  assumes "clientNew w (URL state) = Inr lc" and "GetSTH lc = Inr T"
    and "LastFetched state \<noteq> 0" and "T \<noteq> LastFetched state"
    and "GetRawEntries lc (LastFetched state + 1) T = Inr es"
    and "\<forall>entry \<in> set es. \<not> isl (jsonMarshal w entry)"
    and "\<forall>key body. PutObject w key body = None"
  shows "decodeCalls (events (processLog w s state)) =
           map (\<lambda>k. (LastFetched state + 1 + of_nat k, es ! k)) [0..<length es]"
proof -
  note pe = processEntries_ok [OF assms(6,7), of s "LastFetched state + 1" 0]
  from processEntries_shape [OF pe] processLog_advance [OF assms(1-5) pe]
  show ?thesis by (simp add: decodeCalls_append)
qed

text \<open>
  C4. In the advance step, with the batch \<open>es\<close> fetched, and when no marshalling and
  no write of an artifact fails: the task returns the state with \<open>LastFetched = T\<close>,
  has counted every entry of the batch, and its calls are the size query, the range
  request and then, entry after entry in index order, the calls of the loop body for
  that entry, whatever the decoder answered for the entries before it. The loop body
  for an entry whose decode error is fatal makes the decode call and nothing else: the
  entry is skipped. For an entry decoded with a non-fatal error it does what it does
  for a cleanly decoded one: the entry is matched and, on a match, stored.
\<close>

theorem decode_errors_skip_one_entry:
  assumes "clientNew w (URL state) = Inr lc" and "GetSTH lc = Inr T"
    and "LastFetched state \<noteq> 0" and "T \<noteq> LastFetched state"
    and "GetRawEntries lc (LastFetched state + 1) T = Inr es"
    and "\<forall>entry \<in> set es. \<not> isl (jsonMarshal w entry)"
    and "\<forall>key body. PutObject w key body = None"
  shows "processLog w s state =
           \<lparr>ret = Inr (state\<lparr>LastFetched := T, LastFetchedTime := timeNow w\<rparr>),
            events = [CallGetSTH (URL state),
                      CallGetRawEntries (URL state) (LastFetched state + 1) T] @
                     concat (map (\<lambda>k. snd (processEntry w s (LastFetched state + 1) k (es ! k)))
                                 [0..<length es]),
            entriesSeen = length es\<rparr> \<and>
         decodeCalls (events (processLog w s state)) =
           map (\<lambda>k. (LastFetched state + 1 + of_nat k, es ! k)) [0..<length es] \<and>
         (\<forall>i entry. LogEntryFromLeaf w (LastFetched state + 1 + of_nat i) entry = ParseFatal \<longrightarrow>
            processEntry w s (LastFetched state + 1) i entry =
              (None, [CallLogEntryFromLeaf (LastFetched state + 1 + of_nat i) entry])) \<and>
         (\<forall>i entry le.
            LogEntryFromLeaf w (LastFetched state + 1 + of_nat i) entry = ParseNonFatal le \<or>
            LogEntryFromLeaf w (LastFetched state + 1 + of_nat i) entry = ParseOk le \<longrightarrow>
            processEntry w s (LastFetched state + 1) i entry =
              (fst (matchEntry w s i entry le),
               CallLogEntryFromLeaf (LastFetched state + 1 + of_nat i) entry #
               snd (matchEntry w s i entry le)))"
proof -
  note a = processLog_advance_ok [OF assms, of s]
  note b = processLog_advance_decodeCalls [OF assms, of s]
  have c: "\<forall>i entry. LogEntryFromLeaf w (LastFetched state + 1 + of_nat i) entry = ParseFatal \<longrightarrow>
            processEntry w s (LastFetched state + 1) i entry =
              (None, [CallLogEntryFromLeaf (LastFetched state + 1 + of_nat i) entry])"
    by (simp add: processEntry_fatal)
  have d: "\<forall>i entry le.
            LogEntryFromLeaf w (LastFetched state + 1 + of_nat i) entry = ParseNonFatal le \<or>
            LogEntryFromLeaf w (LastFetched state + 1 + of_nat i) entry = ParseOk le \<longrightarrow>
            processEntry w s (LastFetched state + 1) i entry =
              (fst (matchEntry w s i entry le),
               CallLogEntryFromLeaf (LastFetched state + 1 + of_nat i) entry #
               snd (matchEntry w s i entry le))"
    using processEntry_decoded by blast
  from a b c d show ?thesis by blast
qed

theorem decode_errors_skip_one_entry_witness:
  "clientNew (exWorld (exLog exFaulty 1000)) (URL (exState 1)) = Inr (exLog exFaulty 1000) \<and>
   GetSTH (exLog exFaulty 1000) = Inr 5 \<and>
   LastFetched (exState 1) \<noteq> 0 \<and> 5 \<noteq> LastFetched (exState 1) \<and>
   GetRawEntries (exLog exFaulty 1000) (LastFetched (exState 1) + 1) 5 =
     Inr [''garbled'', ''odd.google.com'', ''b4.org''] \<and>
   \<not> isl (jsonMarshal (exWorld (exLog exFaulty 1000)) ''garbled'') \<and>
   \<not> isl (jsonMarshal (exWorld (exLog exFaulty 1000)) ''odd.google.com'') \<and>
   \<not> isl (jsonMarshal (exWorld (exLog exFaulty 1000)) ''b4.org'') \<and>
   (\<forall>key body. PutObject (exWorld (exLog exFaulty 1000)) key body = None) \<and>
   processLog (exWorld (exLog exFaulty 1000)) exServer (exState 1) =
     \<lparr>ret = Inr (exState 1\<lparr>LastFetched := 5, LastFetchedTime := 77\<rparr>),
      events = [CallGetSTH ''log.example'', CallGetRawEntries ''log.example'' 2 5,
                CallLogEntryFromLeaf 2 ''garbled'',
                CallLogEntryFromLeaf 3 ''odd.google.com'',
                CallPutObject ''certs/T-R-odd.google.com.json'' ''odd.google.com'',
                CallLogEntryFromLeaf 4 ''b4.org''],
      entriesSeen = 3\<rparr> \<and>
   decodeCalls (events (processLog (exWorld (exLog exFaulty 1000)) exServer (exState 1))) =
     [(2, ''garbled''), (3, ''odd.google.com''), (4, ''b4.org'')] \<and>
   LogEntryFromLeaf (exWorld (exLog exFaulty 1000)) 2 ''garbled'' = ParseFatal \<and>
   processEntry (exWorld (exLog exFaulty 1000)) exServer 2 0 ''garbled'' =
     (None, [CallLogEntryFromLeaf 2 ''garbled'']) \<and>
   LogEntryFromLeaf (exWorld (exLog exFaulty 1000)) 3 ''odd.google.com'' =
     ParseNonFatal (exCert ''odd.google.com'') \<and>
   processEntry (exWorld (exLog exFaulty 1000)) exServer 2 1 ''odd.google.com'' =
     (None, [CallLogEntryFromLeaf 3 ''odd.google.com'',
             CallPutObject ''certs/T-R-odd.google.com.json'' ''odd.google.com''])"
proof -
  let ?W = "exWorld (exLog exFaulty 1000)"
  let ?es = "[''garbled'', ''odd.google.com'', ''b4.org'']"
  have c: "clientNew ?W (URL (exState 1)) = Inr (exLog exFaulty 1000)"
    by (simp add: exWorld_def)
  have g: "GetSTH (exLog exFaulty 1000) = Inr 5"
    by (simp add: exLog_def exFaulty_def)
  have n1: "LastFetched (exState 1) \<noteq> 0" and n2: "5 \<noteq> LastFetched (exState 1)"
    and L: "LastFetched (exState 1) + 1 = 2" and u: "URL (exState 1) = ''log.example''"
    by (simp_all add: exState_def)
  have f: "GetRawEntries (exLog exFaulty 1000) (LastFetched (exState 1) + 1) 5 = Inr ?es"
    by (simp add: exLog_def exFaulty_def exState_def)
  have jm: "\<forall>entry \<in> set ?es. \<not> isl (jsonMarshal ?W entry)"
    by (simp add: exWorld_def)
  have po: "\<forall>key body. PutObject ?W key body = None"
    by (simp add: exWorld_def)
  have fat: "LogEntryFromLeaf ?W (LastFetched (exState 1) + 1 + of_nat 0) ''garbled'' = ParseFatal"
    by (simp add: exWorld_def exDecode_def)
  have nonfat: "LogEntryFromLeaf ?W (LastFetched (exState 1) + 1 + of_nat 1) ''odd.google.com'' =
      ParseNonFatal (exCert ''odd.google.com'')"
    by (simp add: exWorld_def exDecode_def)
  have m: "matchEntry ?W exServer (Suc 0) ''odd.google.com'' (exCert ''odd.google.com'') =
      (None, [CallPutObject ''certs/T-R-odd.google.com.json'' ''odd.google.com''])"
    by (simp add: exWorld_def exServer_def exCert_def matchEntry_def storeMatch_def
        selectCert_def nameMatches_def domainHit_def HasSuffix_def suffix_to_prefix
        artifactKey_def)
  have last: "processEntry ?W exServer 2 (Suc (Suc 0)) ''b4.org'' =
      (None, [CallLogEntryFromLeaf 4 ''b4.org''])"
    by (simp add: exWorld_def exServer_def exDecode_def exCert_def
        processEntry_def matchEntry_def storeMatch_def selectCert_def nameMatches_def
        domainHit_def HasSuffix_def suffix_to_prefix artifactKey_def Let_def)
  have tn: "timeNow ?W = 77" by (simp add: exWorld_def)
  have up: "[0..<3] = [0, 1, 2]" by (simp add: upt_conv_Cons)
  note t = decode_errors_skip_one_entry [OF c g n1 n2 f jm po, of exServer]
  from t fat have b:
    "processEntry ?W exServer (LastFetched (exState 1) + 1) 0 ''garbled'' =
       (None, [CallLogEntryFromLeaf (LastFetched (exState 1) + 1 + of_nat 0) ''garbled''])"
    by blast
  from t nonfat have d:
    "processEntry ?W exServer (LastFetched (exState 1) + 1) 1 ''odd.google.com'' =
       (fst (matchEntry ?W exServer 1 ''odd.google.com'' (exCert ''odd.google.com'')),
        CallLogEntryFromLeaf (LastFetched (exState 1) + 1 + of_nat 1) ''odd.google.com'' #
        snd (matchEntry ?W exServer 1 ''odd.google.com'' (exCert ''odd.google.com'')))"
    by blast
  from b have b': "processEntry ?W exServer 2 0 ''garbled'' =
     (None, [CallLogEntryFromLeaf 2 ''garbled''])"
    by (simp add: L)
  from d have d': "processEntry ?W exServer 2 1 ''odd.google.com'' =
     (None, [CallLogEntryFromLeaf 3 ''odd.google.com'',
             CallPutObject ''certs/T-R-odd.google.com.json'' ''odd.google.com''])"
    by (simp add: L m)
  from d' have d'': "processEntry ?W exServer 2 (Suc 0) ''odd.google.com'' =
     (None, [CallLogEntryFromLeaf 3 ''odd.google.com'',
             CallPutObject ''certs/T-R-odd.google.com.json'' ''odd.google.com''])"
    by simp
  from t [THEN conjunct1] have a: "processLog ?W exServer (exState 1) =
     \<lparr>ret = Inr (exState 1\<lparr>LastFetched := 5, LastFetchedTime := 77\<rparr>),
      events = [CallGetSTH ''log.example'', CallGetRawEntries ''log.example'' 2 5,
                CallLogEntryFromLeaf 2 ''garbled'',
                CallLogEntryFromLeaf 3 ''odd.google.com'',
                CallPutObject ''certs/T-R-odd.google.com.json'' ''odd.google.com'',
                CallLogEntryFromLeaf 4 ''b4.org''],
      entriesSeen = 3\<rparr>"
    by (simp add: tn L u up b' d'' last)
  from t [THEN conjunct2, THEN conjunct1]
  have e: "decodeCalls (events (processLog ?W exServer (exState 1))) =
       [(2, ''garbled''), (3, ''odd.google.com''), (4, ''b4.org'')]"
    by (simp add: L up)
  from fat have fat': "LogEntryFromLeaf ?W 2 ''garbled'' = ParseFatal" by (simp add: L)
  from nonfat have nonfat': "LogEntryFromLeaf ?W 3 ''odd.google.com'' =
      ParseNonFatal (exCert ''odd.google.com'')" by (simp add: L)
  from jm have jm': "\<not> isl (jsonMarshal ?W ''garbled'')"
    "\<not> isl (jsonMarshal ?W ''odd.google.com'')" "\<not> isl (jsonMarshal ?W ''b4.org'')"
    by simp_all
  from c g n1 n2 f jm' po a e b' d' fat' nonfat' show ?thesis by blast
qed

text \<open>
  A log with stored watermark 1 and size 5, whose entry 2 fails to decode fatally and
  whose entry 3 decodes with a non-fatal error: the entries 3 and 4 are still decoded
  after the fatal failure, and the entry with the non-fatal error is matched and
  stored.
\<close>

theorem decode_error_handling_counterexample:
  "LogEntryFromLeaf (exWorld (exLog exFaulty 1000)) 2 ''garbled'' = ParseFatal \<and>
   LogEntryFromLeaf (exWorld (exLog exFaulty 1000)) 3 ''odd.google.com'' =
     ParseNonFatal (exCert ''odd.google.com'') \<and>
   processLog (exWorld (exLog exFaulty 1000)) exServer (exState 1) =
     \<lparr>ret = Inr (exState 1\<lparr>LastFetched := 5, LastFetchedTime := 77\<rparr>),
      events = [CallGetSTH ''log.example'', CallGetRawEntries ''log.example'' 2 5,
                CallLogEntryFromLeaf 2 ''garbled'',
                CallLogEntryFromLeaf 3 ''odd.google.com'',
                CallPutObject ''certs/T-R-odd.google.com.json'' ''odd.google.com'',
                CallLogEntryFromLeaf 4 ''b4.org''],
      entriesSeen = 3\<rparr>"
  by (simp add: exWorld_def exLog_def exServer_def exState_def exFaulty_def
      exDecode_def exCert_def processLog_def processEntry_def matchEntry_def storeMatch_def
      selectCert_def nameMatches_def domainHit_def HasSuffix_def suffix_to_prefix
      artifactKey_def Let_def)

section \<open>Short batches\<close>





section \<open>The persisted watermark along a sequence of runs\<close>

text \<open>
  \<open>finalStates\<close> and \<open>storedAfter\<close> follow \<^verbatim>\<open>Handler\<close>: the run returns the error that
  \<open>finalStates\<close> gives, or goes on to marshal and write the map it gives; a run that
  returns an error leaves the watermark file as it was, and a run that returns none
  has written the marshalling of the map that \<open>storedAfter\<close> gives.
\<close>

lemma Handler_finalStates:
  "Handler e = (case finalStates e of
                  Inl err \<Rightarrow> \<lparr>run_err = Some err, run_tasks = run_tasks (Handler e), run_calls = []\<rparr>
                | Inr states \<Rightarrow> persist e (run_tasks (Handler e)) states)"
  by (auto simp: Handler_def finalStates_def failRun_def syncAll_def Let_def persist_def
      split: option.splits sum.splits prod.splits)

lemma Handler_leaves_stored:
  "run_err (Handler e) \<noteq> None \<Longrightarrow> storedAfter e prior = prior"
  by (subst (asm) Handler_finalStates)
     (auto simp: storedAfter_def persist_def split: sum.splits option.splits)

lemma Handler_writes_stored:
  "run_err (Handler e) = None \<Longrightarrow>
   \<exists>states statesTxt. finalStates e = Inr states \<and> marshalStates e states = Inr statesTxt \<and>
      run_calls (Handler e) = [CallPutObject logStateKey statesTxt] \<and>
      storedAfter e prior = states"
  by (subst (asm) Handler_finalStates, subst Handler_finalStates)
     (auto simp: storedAfter_def persist_def split: sum.splits option.splits)

text \<open>
  One run that loads a well-keyed, bounded watermark file in orderly surroundings: every
  state that reaches the collecting loop carries its log's URL and a watermark that is
  not below the stored one, so the map the run ends with is again well keyed and
  bounded, and no watermark in it is below the stored one.
\<close>

lemma processLog_URL: "ret (processLog w s state) = Inr st' \<Longrightarrow> URL st' = URL state"
  by (auto dest: processLog_ret)

lemma task_result_grows:
  assumes "orderlyWorld w" and "LastFetched st0 < 2 ^ 63 - 1"
    and "ret (processLog w s st0) = Inr r"
  shows "URL r = URL st0 \<and> LastFetched st0 \<le> LastFetched r \<and> LastFetched r < 2 ^ 63 - 1"
  using nextState_monotone [OF assms(1,2), of s] assms(3) processLog_URL [OF assms(3)]
  by simp

lemma launched_watermark:
  assumes "wellKeyed stored" and "boundedStates stored"
    and "st0 \<in> set (launched stored logList)"
  shows "LastFetched st0 = watermarkOf stored (URL st0) \<and> LastFetched st0 < 2 ^ 63 - 1"
proof -
  from assms(3) obtain operator log where st0: "st0 = taskState stored operator log"
    by (auto simp: launched_def)
  show ?thesis
  proof (cases "lookupState stored (log_URL log)")
    case None
    with st0 show ?thesis by (simp add: taskState_def watermarkOf_def)
  next
    case (Some state)
    then obtain m where m: "stored = Some m" "m (log_URL log) = Some state"
      by (auto simp: lookupState_def split: option.splits)
    with assms(1,2) have "URL state = log_URL log" "LastFetched state < 2 ^ 63 - 1"
      by (auto simp: wellKeyed_def boundedStates_def)
    with Some st0 show ?thesis by (simp add: taskState_def watermarkOf_def)
  qed
qed

lemma collect_grows:
  assumes "collect rs cur = Inr fin"
    and "\<forall>r. Inr r \<in> set rs \<longrightarrow>
           watermarkOf stored (URL r) \<le> LastFetched r \<and> LastFetched r < 2 ^ 63 - 1"
    and "wellKeyed cur" and "boundedStates cur"
    and "\<forall>url. watermarkOf stored url \<le> watermarkOf cur url"
  shows "wellKeyed fin \<and> boundedStates fin \<and>
         (\<forall>url. watermarkOf stored url \<le> watermarkOf fin url)"
  using assms
proof (induction rs cur rule: collect.induct)
  case (1 states)
  then show ?case by simp
next
  case (2 err rest states)
  then show ?case by simp
next
  case (3 state rest states)
  from "3.prems"(1) obtain m where m: "states = Some m"
    and rec: "collect rest (Some (m(URL state \<mapsto> state))) = Inr fin"
    by (auto split: option.splits)
  from "3.prems"(2) have good: "watermarkOf stored (URL state) \<le> LastFetched state"
    "LastFetched state < 2 ^ 63 - 1"
    by auto
  have wk: "wellKeyed (Some (m(URL state \<mapsto> state)))"
    using "3.prems"(3) m by (auto simp: wellKeyed_def)
  have bd: "boundedStates (Some (m(URL state \<mapsto> state)))"
    using "3.prems"(4) m good by (auto simp: boundedStates_def)
  have mono: "\<forall>url. watermarkOf stored url \<le> watermarkOf (Some (m(URL state \<mapsto> state))) url"
    using "3.prems"(5) m good by (auto simp: watermarkOf_def lookupState_def)
  from "3.prems"(2) have rest: "\<forall>r. Inr r \<in> set rest \<longrightarrow>
           watermarkOf stored (URL r) \<le> LastFetched r \<and> LastFetched r < 2 ^ 63 - 1"
    by auto
  from "3.IH" [OF m rec rest wk bd mono] show ?case .
qed

lemma finalStates_grows:
  assumes "wellKeyed stored" and "boundedStates stored"
    and "fetchLogState e = Inr stored" and "orderlyRun e"
    and "finalStates e = Inr fin"
  shows "wellKeyed fin \<and> boundedStates fin \<and>
         (\<forall>url. watermarkOf stored url \<le> watermarkOf fin url)"
proof -
  from assms(5) obtain c states logList ps where
    la: "loadAll e = Inr (c, states, logList)" and
    co: "collect (arrivalOrder e
                    (map ret (map (processLog (theWorld e)
                                     \<lparr>bucket = getenvBucket e, conf = c, patterns = ps\<rparr>)
                                  (launched states logList))))
                 states = Inr fin"
    by (auto simp: finalStates_def split: if_splits option.splits sum.splits prod.splits)
  from la assms(3) have st: "states = stored"
    by (auto simp: loadAll_def Let_def split: sum.splits)
  let ?s = "\<lparr>bucket = getenvBucket e, conf = c, patterns = ps\<rparr>"
  let ?rs = "map ret (map (processLog (theWorld e) ?s) (launched stored logList))"
  from assms(4) have ow: "orderlyWorld (theWorld e)"
    and perm: "mset (arrivalOrder e ?rs) = mset ?rs"
    by (auto simp: orderlyRun_def)
  have good: "\<forall>r. Inr r \<in> set (arrivalOrder e ?rs) \<longrightarrow>
           watermarkOf stored (URL r) \<le> LastFetched r \<and> LastFetched r < 2 ^ 63 - 1"
  proof (intro allI impI)
    fix r
    assume "Inr r \<in> set (arrivalOrder e ?rs)"
    with perm have "Inr r \<in> set ?rs" by (metis set_mset_mset)
    then obtain st0 where st0: "st0 \<in> set (launched stored logList)"
      and r: "ret (processLog (theWorld e) ?s st0) = Inr r"
      by auto
    from launched_watermark [OF assms(1,2) st0]
    have l: "LastFetched st0 = watermarkOf stored (URL st0)" "LastFetched st0 < 2 ^ 63 - 1"
      by blast+
    from task_result_grows [OF ow l(2) r] l(1)
    show "watermarkOf stored (URL r) \<le> LastFetched r \<and> LastFetched r < 2 ^ 63 - 1"
      by simp
  qed
  from co st have "collect (arrivalOrder e ?rs) stored = Inr fin" by simp
  from collect_grows [OF this good assms(1,2)] show ?thesis by simp
qed

lemma storedAfter_grows:
  assumes "wellKeyed stored" and "boundedStates stored"
    and "fetchLogState e = Inr stored" and "orderlyRun e"
  shows "wellKeyed (storedAfter e stored) \<and> boundedStates (storedAfter e stored) \<and>
         (\<forall>url. watermarkOf stored url \<le> watermarkOf (storedAfter e stored) url)"
proof (cases "storedAfter e stored = stored")
  case True
  with assms(1,2) show ?thesis by simp
next
  case False
  then obtain fin where "finalStates e = Inr fin" and "storedAfter e stored = fin"
    by (auto simp: storedAfter_def split: sum.splits option.splits)
  with finalStates_grows [OF assms, of fin] show ?thesis by simp
qed

text \<open>
  C9. Along any sequence of runs in which every run loads the watermark file that the
  run before it left, starting from a file whose entries are stored under their own
  URL with watermarks below \<open>2^63 - 1\<close>, with log clients that refuse a range whose
  end is below its start and report sizes below \<open>2^63 - 1\<close>, and with every task
  result reaching the collecting loop: for every log identifier the persisted
  \<open>LastFetched\<close> never decreases. The list of its successive values, 0 standing for
  an absent entry, is sorted in the unsigned order.
\<close>

theorem persisted_watermark_never_decreases:
  assumes "wellKeyed stored" and "boundedStates stored"
    and "loadsStored runs stored" and "\<forall>e \<in> set runs. orderlyRun e"
  shows "sorted (map (\<lambda>states. watermarkOf states url) (stored # storedRuns runs stored))"
  using assms
proof (induction runs arbitrary: stored)
  case Nil
  show ?case by simp
next
  case (Cons e runs)
  let ?next = "storedAfter e stored"
  from Cons.prems have ld: "fetchLogState e = Inr stored" and rest: "loadsStored runs ?next"
    and oe: "orderlyRun e" and orest: "\<forall>e \<in> set runs. orderlyRun e"
    by simp_all
  from storedAfter_grows [OF Cons.prems(1,2) ld oe]
  have wk: "wellKeyed ?next" and bd: "boundedStates ?next"
    and le: "watermarkOf stored url \<le> watermarkOf ?next url"
    by simp_all
  from Cons.IH [OF wk bd rest orest]
  have "sorted (map (\<lambda>states. watermarkOf states url) (?next # storedRuns runs ?next))" .
  with le show ?case by (auto simp: Let_def intro: order_trans [OF le])
qed

lemma orderly_samples:
  "orderlyWorld (exWorld (exLog exEntries 1000))" "orderlyWorld (exWorld exDown)"
  "orderlyWorld exOneDown"
  by (auto simp: orderlyWorld_def exWorld_def exOneDown_def exLog_def exDown_def
      refusesInverted_def exEntries_def split: if_splits)

theorem persisted_watermark_never_decreases_witness:
  "wellKeyed exStoredTen \<and> boundedStates exStoredTen \<and>
   loadsStored
     [exEnv (exWorld (exLog exEntries 1000)) (Inr (conf exServer)) (Inr exStoredTen)
        (Inr exCatalog),
      exEnv (exWorld exDown) (Inr (conf exServer))
        (Inr (storedAfter (exEnv (exWorld (exLog exEntries 1000)) (Inr (conf exServer))
                             (Inr exStoredTen) (Inr exCatalog)) exStoredTen))
        (Inr exCatalog)]
     exStoredTen \<and>
   orderlyRun (exEnv (exWorld (exLog exEntries 1000)) (Inr (conf exServer)) (Inr exStoredTen)
                 (Inr exCatalog)) \<and>
   orderlyRun (exEnv (exWorld exDown) (Inr (conf exServer))
        (Inr (storedAfter (exEnv (exWorld (exLog exEntries 1000)) (Inr (conf exServer))
                             (Inr exStoredTen) (Inr exCatalog)) exStoredTen))
        (Inr exCatalog)) \<and>
   map (\<lambda>states. watermarkOf states ''log.example'')
     (exStoredTen #
      storedRuns
        [exEnv (exWorld (exLog exEntries 1000)) (Inr (conf exServer)) (Inr exStoredTen)
           (Inr exCatalog),
         exEnv (exWorld exDown) (Inr (conf exServer))
           (Inr (storedAfter (exEnv (exWorld (exLog exEntries 1000)) (Inr (conf exServer))
                                (Inr exStoredTen) (Inr exCatalog)) exStoredTen))
           (Inr exCatalog)]
        exStoredTen) = [10, 15, 15] \<and>
   sorted (map (\<lambda>states. watermarkOf states ''log.example'')
     (exStoredTen #
      storedRuns
        [exEnv (exWorld (exLog exEntries 1000)) (Inr (conf exServer)) (Inr exStoredTen)
           (Inr exCatalog),
         exEnv (exWorld exDown) (Inr (conf exServer))
           (Inr (storedAfter (exEnv (exWorld (exLog exEntries 1000)) (Inr (conf exServer))
                                (Inr exStoredTen) (Inr exCatalog)) exStoredTen))
           (Inr exCatalog)]
        exStoredTen))"
proof -
  let ?A = "exEnv (exWorld (exLog exEntries 1000)) (Inr (conf exServer)) (Inr exStoredTen)
              (Inr exCatalog)"
  let ?S1 = "storedAfter ?A exStoredTen"
  let ?B = "exEnv (exWorld exDown) (Inr (conf exServer)) (Inr ?S1) (Inr exCatalog)"
  have wk: "wellKeyed exStoredTen"
    by (auto simp: wellKeyed_def exStoredTen_def exState_def split: if_splits)
  have bd: "boundedStates exStoredTen"
    by (auto simp: boundedStates_def exStoredTen_def exState_def split: if_splits)
  have ls: "loadsStored [?A, ?B] exStoredTen"
    by (simp add: exEnv_def)
  have oA: "orderlyRun ?A" and oB: "orderlyRun ?B"
    using orderly_samples by (simp_all add: orderlyRun_def exEnv_def)
  have s1: "?S1 = Some [''log.example'' \<mapsto> exState 10\<lparr>LastFetched := 15, LastFetchedTime := 77\<rparr>]"
    by (simp add: storedAfter_def finalStates_def loadAll_def launched_def taskState_def
        lookupState_def logStateKey_def exEnv_def exCatalog_def exMarshal_def exStoredTen_def
        exWorld_def exLog_def exServer_def exState_def exEntries_def exDecode_def exCert_def
        processLog_def processEntry_def matchEntry_def storeMatch_def selectCert_def
        nameMatches_def domainHit_def HasSuffix_def suffix_to_prefix artifactKey_def Let_def)
  have s2: "storedAfter (exEnv (exWorld exDown) (Inr (conf exServer))
               (Inr (Some [''log.example'' \<mapsto>
                             exState 10\<lparr>LastFetched := 15, LastFetchedTime := 77\<rparr>]))
               (Inr exCatalog))
              (Some [''log.example'' \<mapsto> exState 10\<lparr>LastFetched := 15, LastFetchedTime := 77\<rparr>]) =
            Some [''log.example'' \<mapsto> exState 10\<lparr>LastFetched := 15, LastFetchedTime := 77\<rparr>]"
    by (simp add: storedAfter_def finalStates_def loadAll_def launched_def taskState_def
        lookupState_def logStateKey_def exEnv_def exCatalog_def exMarshal_def
        exWorld_def exDown_def exServer_def exState_def processLog_def Let_def)
  have v: "map (\<lambda>states. watermarkOf states ''log.example'')
             (exStoredTen # storedRuns [?A, ?B] exStoredTen) = [10, 15, 15]"
    by (simp add: Let_def s1 s2) (simp add: watermarkOf_def lookupState_def exStoredTen_def exState_def)
  from oA oB have "\<forall>e \<in> set [?A, ?B]. orderlyRun e" by simp
  from persisted_watermark_never_decreases [OF wk bd ls this, of "''log.example''"]
  have "sorted (map (\<lambda>states. watermarkOf states ''log.example'')
                 (exStoredTen # storedRuns [?A, ?B] exStoredTen))" .
  with wk bd ls oA oB v show ?thesis by blast
qed

text \<open>
  Two runs after which a persisted watermark is smaller than before. In the first the
  watermark file cannot be loaded and the log \<open>''down.example''\<close>, stored with
  watermark 7, cannot be reached: the run starts every log from a fresh state and
  writes watermark 0 for it. In the second the file holds the largest 64-bit value for
  \<open>''log.example''\<close>: the start of the range request wraps around to 0, the client
  answers, and the run writes the reported size 15.
\<close>

theorem persisted_watermark_regress_counterexample:
  "wellKeyed exStored \<and> boundedStates exStored \<and>
   orderlyRun (exEnv exOneDown (Inr (conf exServer)) (Inl (ExternalErr ''timeout''))
                 (Inr exCatalog2)) \<and>
   watermarkOf exStored ''down.example'' = 7 \<and>
   run_err (Handler (exEnv exOneDown (Inr (conf exServer)) (Inl (ExternalErr ''timeout''))
                       (Inr exCatalog2))) = None \<and>
   watermarkOf (storedAfter (exEnv exOneDown (Inr (conf exServer))
                               (Inl (ExternalErr ''timeout'')) (Inr exCatalog2)) exStored)
     ''down.example'' = 0 \<and>
   wellKeyed exStoredMax \<and>
   orderlyRun (exEnv (exWorld (exLog exEntries 1000)) (Inr (conf exServer)) (Inr exStoredMax)
                 (Inr exCatalog)) \<and>
   watermarkOf exStoredMax ''log.example'' = 18446744073709551615 \<and>
   run_err (Handler (exEnv (exWorld (exLog exEntries 1000)) (Inr (conf exServer))
                       (Inr exStoredMax) (Inr exCatalog))) = None \<and>
   watermarkOf (storedAfter (exEnv (exWorld (exLog exEntries 1000)) (Inr (conf exServer))
                               (Inr exStoredMax) (Inr exCatalog)) exStoredMax)
     ''log.example'' = 15"
proof -
  let ?E2 = "exEnv exOneDown (Inr (conf exServer)) (Inl (ExternalErr ''timeout''))
               (Inr exCatalog2)"
  let ?E1 = "exEnv (exWorld (exLog exEntries 1000)) (Inr (conf exServer)) (Inr exStoredMax)
               (Inr exCatalog)"
  have a: "wellKeyed exStored" "wellKeyed exStoredMax"
    by (auto simp: wellKeyed_def exStored_def exStoredMax_def exState_def split: if_splits)
  have b: "boundedStates exStored"
    by (auto simp: boundedStates_def exStored_def exState_def split: if_splits)
  have o: "orderlyRun ?E2" "orderlyRun ?E1"
    using orderly_samples by (simp_all add: orderlyRun_def exEnv_def)
  have w: "watermarkOf exStored ''down.example'' = 7"
    "watermarkOf exStoredMax ''log.example'' = 18446744073709551615"
    by (simp_all add: watermarkOf_def lookupState_def exStored_def exStoredMax_def exState_def)
  have r2: "run_err (Handler ?E2) = None"
    by (simp add: Handler_def syncAll_def persist_def loadAll_def launched_def taskState_def
        lookupState_def logStateKey_def exEnv_def exCatalog2_def exMarshal_def exOneDown_def
        exWorld_def exLog_def exDown_def exServer_def exEntries_def processLog_def Let_def)
  have s2: "watermarkOf (storedAfter ?E2 exStored) ''down.example'' = 0"
    by (simp add: watermarkOf_def storedAfter_def finalStates_def loadAll_def launched_def
        taskState_def lookupState_def logStateKey_def exEnv_def exCatalog2_def exMarshal_def
        exOneDown_def exWorld_def exLog_def exDown_def exServer_def exEntries_def
        processLog_def Let_def)
  have r1: "run_err (Handler ?E1) = None"
    by (simp add: Handler_def syncAll_def persist_def loadAll_def launched_def taskState_def
        lookupState_def logStateKey_def exEnv_def exCatalog_def exMarshal_def exStoredMax_def
        exWorld_def exLog_def exServer_def exState_def exEntries_def exDecode_def exCert_def
        processLog_def processEntry_def matchEntry_def storeMatch_def selectCert_def
        nameMatches_def domainHit_def HasSuffix_def suffix_to_prefix artifactKey_def Let_def)
  have s1: "watermarkOf (storedAfter ?E1 exStoredMax) ''log.example'' = 15"
    by (simp add: watermarkOf_def storedAfter_def finalStates_def loadAll_def launched_def
        taskState_def lookupState_def logStateKey_def exEnv_def exCatalog_def exMarshal_def
        exStoredMax_def exWorld_def exLog_def exServer_def exState_def exEntries_def
        exDecode_def exCert_def processLog_def processEntry_def matchEntry_def storeMatch_def
        selectCert_def nameMatches_def domainHit_def HasSuffix_def suffix_to_prefix
        artifactKey_def Let_def)
  from a b o w r2 s2 r1 s1 show ?thesis by blast
qed

end
